theory Spec2Isabelle
  imports Complex_Main "HOL-Library.Word"
begin

section \<open>The screenshot streamer (sandbox/screenshot\_streamer.py)\<close>

text \<open>
  The streamer is an asyncio coroutine: it talks to a dev server (probe GETs), to a
  headless browser (launch, navigate, screenshot) and to the control plane (POSTs), it
  sleeps, it reads the wall clock, and a signal handler may run \<open>stop()\<close> while it is
  suspended in an \<open>await\<close>. The embedding makes all of that explicit:

  \<^item> everything outside the source file is one record \<open>env\<close>: what the n-th suspension
    (\<open>await\<close>) receives as its answer, whether \<open>stop()\<close> runs during it, what the n-th
    call of \<open>time.time()\<close> reads, and the two library functions the code calls
    (\<open>hashlib.md5(..).hexdigest()\<close> and \<open>base64.b64encode(..).decode("ascii")\<close>);
  \<^item> the object's fields are a record \<open>state\<close>, which also counts the suspensions and
    clock reads made so far and keeps the trace of everything the process did;
  \<^item> an exception is a value \<open>exn\<close> (instances of Python's \<open>Exception\<close>, which is what
    every \<open>except Exception\<close> of the source catches; \<open>CancelledError\<close> and the other
    \<open>BaseException\<close>s are not modelled);
  \<^item> the two \<open>while\<close> loops take fuel and return \<open>None\<close> when it runs out;
  \<^item> seconds (Python floats) are real numbers, and the one computation on them,
    \<open>time.time() - start < timeout\<close>, is exact.

  A suspension is counted for each network or browser call and each \<open>asyncio.sleep\<close>;
  entering and leaving the \<open>async with\<close> blocks is not. \<open>stop()\<close> runs in one piece.
\<close>

subsection \<open>Data\<close>

type_synonym bytes = "8 word list"

type_synonym seconds = real

datatype exn = Exn string

record StreamerConfig =
  target_url :: string
  control_plane_url :: string
  session_id :: string
  auth_token :: string
  interval :: seconds
  viewport_width :: int
  viewport_height :: int
  quality :: int
  max_retries :: int
  retry_delay :: seconds

datatype get_result = GetStatus int | GetError exn

datatype post_result = PostStatus int | PostError exn

datatype shot_result = ShotBytes bytes | ShotError exn

text \<open>The JSON body of a frame POST (the dict \<open>payload\<close> of \<open>_send_frame\<close>).\<close>

record payload =
  type_tag :: string
  frameNumber :: int
  frameHash :: string
  timestamp :: seconds
  imageData :: string
  imageType :: string
  width :: int
  height :: int

text \<open>One constructor per \<open>print\<close> of the source, with the values it formats.\<close>

datatype log_msg =
    LogStarting
  | LogTargetUrl string
  | LogInterval seconds
  | LogNeverAvailable
  | LogNavigated string
  | LogNavigateFailed exn
  | LogStopping
  | LogWaiting
  | LogTargetAvailable int
  | LogCaptureError exn
  | LogScreenshotFailed exn
  | LogSentFrame int
  | LogFrameSendFailed int
  | LogFrameSendError int exn

datatype event =
    EvLog log_msg
  | EvSleep seconds
  | EvGet string get_result
  | EvPost string "(string \<times> string) list" payload post_result
  | EvScreenshot int shot_result
  | EvLaunch "exn option"
  | EvNewPage int int "exn option"
  | EvGoto string "exn option"
  | EvBrowserClose
  | EvClientClose

datatype browser_handle = Browser

datatype page_handle = Page

datatype client_handle = ClientOpen | ClientClosed

text \<open>
  The environment. \<open>now n\<close> is what the n-th call of \<open>time.time()\<close> reads. The other
  answers are indexed by the suspension counter: \<open>post_resp k\<close> is what a POST awaited as
  the k-th suspension of the run receives (a status code or an exception), likewise for
  the probe GET, the screenshot, \<open>launch\<close>, \<open>new_page\<close> and \<open>goto\<close> (\<open>Some e\<close>: it raises
  \<open>e\<close>), and \<open>stop_req k\<close> says that \<open>stop()\<close> runs during the k-th suspension.
  \<open>hashlib.md5\<close> raises where the digest is disabled, so \<open>md5_hexdigest\<close> returns a sum.
\<close>

record env =
  now :: "nat \<Rightarrow> seconds"
  stop_req :: "nat \<Rightarrow> bool"
  get_resp :: "nat \<Rightarrow> get_result"
  post_resp :: "nat \<Rightarrow> post_result"
  shot_resp :: "nat \<Rightarrow> shot_result"
  launch_resp :: "nat \<Rightarrow> exn option"
  new_page_resp :: "nat \<Rightarrow> exn option"
  goto_resp :: "nat \<Rightarrow> exn option"
  md5_hexdigest :: "bytes \<Rightarrow> exn + string"
  b64encode :: "bytes \<Rightarrow> string"

record state =
  running :: bool
  browser :: "browser_handle option"
  page :: "page_handle option"
  frame_count :: int
  last_frame_hash :: "string option"
  http_client :: "client_handle option"
  tick :: nat
  clock_reads :: nat
  trace :: "event list"

text \<open>\<open>ScreenshotStreamer.__init__\<close>, in a fresh world.\<close>

definition init :: state where
  "init = \<lparr>running = False, browser = None, page = None, frame_count = 0,
           last_frame_hash = None, http_client = None, tick = 0, clock_reads = 0,
           trace = []\<rparr>"

subsection \<open>Suspension, stop and the clock\<close>

definition emit :: "event \<Rightarrow> state \<Rightarrow> state" where
  "emit e s = s\<lparr>trace := trace s @ [e]\<rparr>"

text \<open>
  \<open>ScreenshotStreamer.stop\<close>: the signal handler schedules it as a task, so it runs
  while the main coroutine is suspended. \<open>self.browser\<close> is never reset, so a second
  stop closes the browser again.
\<close>

definition stop :: "state \<Rightarrow> state" where
  "stop s =
     (let s1 = (emit (EvLog LogStopping) s)\<lparr>running := False\<rparr>
      in (case browser s1 of None \<Rightarrow> s1 | Some b \<Rightarrow> emit EvBrowserClose s1))"

text \<open>One \<open>await\<close>: the suspension is counted, and \<open>stop()\<close> runs during it if the
  environment says so.\<close>

definition suspend :: "env \<Rightarrow> state \<Rightarrow> state" where
  "suspend E s =
     (let s1 = s\<lparr>tick := Suc (tick s)\<rparr>
      in if stop_req E (tick s) then stop s1 else s1)"

definition sleep :: "env \<Rightarrow> seconds \<Rightarrow> state \<Rightarrow> state" where
  "sleep E d s = suspend E (emit (EvSleep d) s)"

definition read_clock :: "state \<Rightarrow> state" where
  "read_clock s = s\<lparr>clock_reads := Suc (clock_reads s)\<rparr>"

subsection \<open>\<open>_wait_for_target\<close>\<close>

fun wait_loop :: "env \<Rightarrow> StreamerConfig \<Rightarrow> seconds \<Rightarrow> seconds \<Rightarrow> nat \<Rightarrow> state
    \<Rightarrow> (bool \<times> state) option" where
  "wait_loop E cfg start_time timeout 0 s = None"
| "wait_loop E cfg start_time timeout (Suc fuel) s =
     (let t = now E (clock_reads s); s0 = read_clock s in
      if t - start_time < timeout then
        if \<not> running s0 then Some (False, s0)
        else
          let r = get_resp E (tick s0);
              s1 = suspend E (emit (EvGet (target_url cfg) r) s0)
          in (case r of
                GetStatus status_code \<Rightarrow>
                  if status_code < 500
                  then Some (True, emit (EvLog (LogTargetAvailable status_code)) s1)
                  else wait_loop E cfg start_time timeout fuel (sleep E 1 s1)
              | GetError e \<Rightarrow> wait_loop E cfg start_time timeout fuel (sleep E 1 s1))
      else Some (False, s0))"

definition wait_for_target :: "env \<Rightarrow> StreamerConfig \<Rightarrow> seconds \<Rightarrow> nat \<Rightarrow> state
    \<Rightarrow> (bool \<times> state) option" where
  "wait_for_target E cfg timeout fuel s =
     (let s0 = emit (EvLog LogWaiting) s;
          start_time = now E (clock_reads s0)
      in wait_loop E cfg start_time timeout fuel (read_clock s0))"

subsection \<open>\<open>_send_frame\<close>\<close>

definition endpoint :: "StreamerConfig \<Rightarrow> string" where
  "endpoint cfg = control_plane_url cfg @ ''/sessions/'' @ session_id cfg @ ''/stream-frame''"

definition headers :: "StreamerConfig \<Rightarrow> (string \<times> string) list" where
  "headers cfg = [(''Authorization'', ''Bearer '' @ auth_token cfg),
                  (''Content-Type'', ''application/json'')]"

text \<open>Python's \<open>range(n)\<close>: empty when \<open>n \<le> 0\<close>.\<close>

definition py_range :: "int \<Rightarrow> int list" where
  "py_range n = map int [0..<nat n]"

text \<open>The body of \<open>for attempt in range(self.config.max_retries)\<close>, over the attempt
  numbers still to come.\<close>

fun send_attempts :: "env \<Rightarrow> StreamerConfig \<Rightarrow> payload \<Rightarrow> int list \<Rightarrow> state \<Rightarrow> state" where
  "send_attempts E cfg p [] s = s"
| "send_attempts E cfg p (attempt # rest) s =
     (let r = post_resp E (tick s);
          s1 = suspend E (emit (EvPost (endpoint cfg) (headers cfg) p r) s)
      in (case r of
            PostStatus status_code \<Rightarrow>
              if status_code = 200 then
                (if frame_count s1 mod 10 = 0
                 then emit (EvLog (LogSentFrame (frame_count s1))) s1 else s1)
              else send_attempts E cfg p rest (emit (EvLog (LogFrameSendFailed status_code)) s1)
          | PostError e \<Rightarrow>
              (let s2 = emit (EvLog (LogFrameSendError (attempt + 1) e)) s1;
                   s3 = (if attempt < max_retries cfg - 1 then sleep E (retry_delay cfg) s2 else s2)
               in send_attempts E cfg p rest s3)))"

definition make_payload :: "env \<Rightarrow> StreamerConfig \<Rightarrow> string \<Rightarrow> string \<Rightarrow> state \<Rightarrow> payload" where
  "make_payload E cfg frame_data frame_hash s =
     \<lparr>type_tag = ''screenshot_frame'', frameNumber = frame_count s, frameHash = frame_hash,
      timestamp = now E (clock_reads s), imageData = frame_data, imageType = ''jpeg'',
      width = viewport_width cfg, height = viewport_height cfg\<rparr>"

definition send_frame :: "env \<Rightarrow> StreamerConfig \<Rightarrow> string \<Rightarrow> string \<Rightarrow> state \<Rightarrow> state" where
  "send_frame E cfg frame_data frame_hash s =
     (case http_client s of
        None \<Rightarrow> s
      | Some c \<Rightarrow>
          send_attempts E cfg (make_payload E cfg frame_data frame_hash s)
            (py_range (max_retries cfg)) (read_clock s))"

subsection \<open>\<open>_capture_and_send\<close> and \<open>_capture_loop\<close>\<close>

text \<open>
  \<open>hashlib.md5\<close> is the one call of the cycle outside a \<open>try\<close> that can raise (a
  \<open>ValueError\<close> where the digest is disabled), so the library function returns a sum;
  the exception leaves \<open>_capture_and_send\<close>, with the state as it is at that point.
\<close>

definition capture_and_send :: "env \<Rightarrow> StreamerConfig \<Rightarrow> state \<Rightarrow> (exn + unit) \<times> state" where
  "capture_and_send E cfg s =
     (case page s of
        None \<Rightarrow> (Inr (), s)
      | Some pg \<Rightarrow>
          (let r = shot_resp E (tick s);
               s1 = suspend E (emit (EvScreenshot (quality cfg) r) s)
           in (case r of
                 ShotError e \<Rightarrow> (Inr (), emit (EvLog (LogScreenshotFailed e)) s1)
               | ShotBytes screenshot_bytes \<Rightarrow>
                   (case md5_hexdigest E screenshot_bytes of
                      Inl e \<Rightarrow> (Inl e, s1)
                    | Inr digest \<Rightarrow>
                        (let frame_hash = take 16 digest in
                         if Some frame_hash = last_frame_hash s1 then (Inr (), s1)
                         else
                           (let s2 = s1\<lparr>last_frame_hash := Some frame_hash,
                                        frame_count := frame_count s1 + 1\<rparr>;
                                frame_data = b64encode E screenshot_bytes
                            in (Inr (), send_frame E cfg frame_data frame_hash s2)))))))"

text \<open>One iteration of \<open>_capture_loop\<close>: the cycle, its \<open>except Exception\<close>, the sleep.\<close>

definition cycle :: "env \<Rightarrow> StreamerConfig \<Rightarrow> state \<Rightarrow> state" where
  "cycle E cfg s =
     (let (r, s1) = capture_and_send E cfg s;
          s2 = (case r of Inl e \<Rightarrow> emit (EvLog (LogCaptureError e)) s1 | Inr u \<Rightarrow> s1)
      in sleep E (interval cfg) s2)"

fun capture_loop :: "env \<Rightarrow> StreamerConfig \<Rightarrow> nat \<Rightarrow> state \<Rightarrow> state option" where
  "capture_loop E cfg 0 s = None"
| "capture_loop E cfg (Suc fuel) s =
     (if running s then capture_loop E cfg fuel (cycle E cfg s) else Some s)"

subsection \<open>\<open>start\<close> and \<open>main\<close>\<close>

text \<open>
  An exception of \<open>launch\<close> or \<open>new_page\<close> is not caught: it leaves \<open>start\<close> (\<open>Inl\<close>).
  The two early \<open>return\<close>s and the final \<open>aclose()\<close> are as in the source.
\<close>

definition close_client :: "env \<Rightarrow> state \<Rightarrow> state" where
  "close_client E s =
     (case http_client s of
        None \<Rightarrow> s
      | Some c \<Rightarrow> (suspend E (emit EvClientClose s))\<lparr>http_client := Some ClientClosed\<rparr>)"

text \<open>The first lines of \<open>start\<close>, up to the call of \<open>_wait_for_target\<close>.\<close>

definition begin_run :: "StreamerConfig \<Rightarrow> state \<Rightarrow> state" where
  "begin_run cfg s =
     (let s0 = emit (EvLog (LogInterval (interval cfg)))
                 (emit (EvLog (LogTargetUrl (target_url cfg))) (emit (EvLog LogStarting) s))
      in s0\<lparr>running := True, http_client := Some ClientOpen\<rparr>)"

definition start :: "env \<Rightarrow> StreamerConfig \<Rightarrow> nat \<Rightarrow> state \<Rightarrow> ((exn + unit) \<times> state) option" where
  "start E cfg fuel s =
     (let s1 = begin_run cfg s
      in (case wait_for_target E cfg 60 fuel s1 of
            None \<Rightarrow> None
          | Some (available, s2) \<Rightarrow>
              if \<not> available then Some (Inr (), emit (EvLog LogNeverAvailable) s2)
              else
                (let l = launch_resp E (tick s2);
                     s3 = suspend E (emit (EvLaunch l) s2)
                 in (case l of
                       Some e \<Rightarrow> Some (Inl e, s3)
                     | None \<Rightarrow>
                         (let s4 = s3\<lparr>browser := Some Browser\<rparr>;
                              n = new_page_resp E (tick s4);
                              s5 = suspend E
                                     (emit (EvNewPage (viewport_width cfg) (viewport_height cfg) n) s4)
                          in (case n of
                                Some e \<Rightarrow> Some (Inl e, s5)
                              | None \<Rightarrow>
                                  (let s6 = s5\<lparr>page := Some Page\<rparr>;
                                       g = goto_resp E (tick s6);
                                       s7 = suspend E (emit (EvGoto (target_url cfg) g) s6)
                                   in (case g of
                                         Some e \<Rightarrow>
                                           Some (Inr (), emit (EvLog (LogNavigateFailed e)) s7)
                                       | None \<Rightarrow>
                                           (case capture_loop E cfg fuel
                                                   (emit (EvLog (LogNavigated (target_url cfg))) s7) of
                                              None \<Rightarrow> None
                                            | Some s8 \<Rightarrow>
                                                Some (Inr (), close_client E s8))))))))))"

text \<open>The command line of \<open>main\<close>, parsed: \<open>max_retries\<close> and \<open>retry_delay\<close> are not
  options, so they keep the dataclass defaults.\<close>

record args =
  arg_target_url :: string
  arg_control_plane_url :: string
  arg_session_id :: string
  arg_auth_token :: string
  arg_interval :: seconds
  arg_width :: int
  arg_height :: int
  arg_quality :: int

definition config_of_args :: "args \<Rightarrow> StreamerConfig" where
  "config_of_args a =
     \<lparr>target_url = arg_target_url a, control_plane_url = arg_control_plane_url a,
      session_id = arg_session_id a, auth_token = arg_auth_token a,
      interval = arg_interval a, viewport_width = arg_width a, viewport_height = arg_height a,
      quality = arg_quality a, max_retries = 3, retry_delay = 1\<rparr>"

definition main :: "env \<Rightarrow> args \<Rightarrow> nat \<Rightarrow> ((exn + unit) \<times> state) option" where
  "main E a fuel = start E (config_of_args a) fuel init"

text \<open>
  \<open>asyncio.run(main())\<close> is the last statement of the script: when \<open>main\<close> returns the
  interpreter exits with status 0, and an exception that leaves it ends the process
  with a traceback and status 1. The source never calls \<open>sys.exit\<close>.
\<close>

definition exit_code :: "(exn + unit) \<times> state \<Rightarrow> int" where
  "exit_code r = (case fst r of Inl e \<Rightarrow> 1 | Inr u \<Rightarrow> 0)"

subsection \<open>Reading a trace\<close>

fun posts :: "event list \<Rightarrow> payload list" where
  "posts [] = []"
| "posts (EvPost url hs p r # t) = p # posts t"
| "posts (e # t) = posts t"

fun delivered :: "event list \<Rightarrow> payload list" where
  "delivered [] = []"
| "delivered (EvPost url hs p (PostStatus c) # t) =
     (if c = 200 then p # delivered t else delivered t)"
| "delivered (e # t) = delivered t"

fun post_results :: "event list \<Rightarrow> post_result list" where
  "post_results [] = []"
| "post_results (EvPost url hs p r # t) = r # post_results t"
| "post_results (e # t) = post_results t"

text \<open>What the main coroutine did between its log lines: the probe GETs, the POSTs and
  the sleeps, in order.\<close>

fun is_io :: "event \<Rightarrow> bool" where
  "is_io (EvSleep d) = True"
| "is_io (EvGet url r) = True"
| "is_io (EvPost url hs p r) = True"
| "is_io e = False"

definition io :: "event list \<Rightarrow> event list" where
  "io t = filter is_io t"

fun sleeps :: "event list \<Rightarrow> seconds list" where
  "sleeps [] = []"
| "sleeps (EvSleep d # t) = d # sleeps t"
| "sleeps (e # t) = sleeps t"

fun logs :: "event list \<Rightarrow> log_msg list" where
  "logs [] = []"
| "logs (EvLog m # t) = m # logs t"
| "logs (e # t) = logs t"

text \<open>The probe's test \<open>response.status_code < 500\<close>; a transport error is no response.\<close>

fun available :: "get_result \<Rightarrow> bool" where
  "available (GetStatus status_code) = (status_code < 500)"
| "available (GetError e) = False"

subsection \<open>Notions used in the statements\<close>

text \<open>\<open>follows E s s'\<close>: the suspension counter has not gone back from \<open>s\<close> to \<open>s'\<close>, and
  the running flag is still set in \<open>s'\<close> exactly when it was set in \<open>s\<close> and no stop ran
  during a suspension in between.\<close>

definition follows :: "env \<Rightarrow> state \<Rightarrow> state \<Rightarrow> bool" where
  "follows E s s' =
     (tick s \<le> tick s' \<and>
      running s' = (running s \<and> (\<forall>k\<in>{tick s..<tick s'}. \<not> stop_req E k)))"

text \<open>The state after one probe request of \<open>_wait_for_target\<close> (clock read, GET), before
  the code looks at the answer.\<close>

definition probed :: "env \<Rightarrow> StreamerConfig \<Rightarrow> state \<Rightarrow> state" where
  "probed E cfg s =
     suspend E (emit (EvGet (target_url cfg) (get_resp E (tick s))) (read_clock s))"

text \<open>The states \<open>start\<close> goes through between a successful probe and the capture loop,
  when nothing raises.\<close>

definition launched :: "env \<Rightarrow> state \<Rightarrow> state" where
  "launched E s = (suspend E (emit (EvLaunch None) s))\<lparr>browser := Some Browser\<rparr>"

definition page_opened :: "env \<Rightarrow> StreamerConfig \<Rightarrow> state \<Rightarrow> state" where
  "page_opened E cfg s =
     (suspend E (emit (EvNewPage (viewport_width cfg) (viewport_height cfg) None) s))
       \<lparr>page := Some Page\<rparr>"

definition navigated :: "env \<Rightarrow> StreamerConfig \<Rightarrow> state \<Rightarrow> state" where
  "navigated E cfg s =
     emit (EvLog (LogNavigated (target_url cfg))) (suspend E (emit (EvGoto (target_url cfg) None) s))"

definition ready :: "env \<Rightarrow> StreamerConfig \<Rightarrow> state \<Rightarrow> state" where
  "ready E cfg s = navigated E cfg (page_opened E cfg (launched E s))"

text \<open>Whether \<open>_send_frame\<close> makes a POST at all.\<close>

definition can_post :: "StreamerConfig \<Rightarrow> state \<Rightarrow> bool" where
  "can_post cfg s = (1 \<le> max_retries cfg \<and> http_client s \<noteq> None)"

text \<open>The invariant of a run in which every POST is answered with 200: every POST made
  so far was delivered, and the POSTs carry the numbers 1 to \<open>frame_count\<close> (or there is
  none, when the streamer cannot post at all).\<close>

definition in_sequence :: "StreamerConfig \<Rightarrow> state \<Rightarrow> bool" where
  "in_sequence cfg s =
     (0 \<le> frame_count s \<and> delivered (trace s) = posts (trace s)
      \<and> map frameNumber (posts (trace s)) =
          (if can_post cfg s then [1..frame_count s] else []))"

subsection \<open>Concrete inputs\<close>

text \<open>
  The command line of the module's docstring, a streamer in the state in which \<open>start\<close>
  enters the capture loop, and environments for the examples. In \<open>calm\<close> the target
  answers 200, every POST is answered 200, each screenshot differs from the one before
  (its length is the suspension counter), the clock advances one second per reading
  and nobody stops the streamer; the others change one thing each. The stand-in digest
  tells frames apart by their length only; the theorems hold for every digest.
\<close>

definition demo_args :: args where
  "demo_args = \<lparr>arg_target_url = ''http://localhost:5173'', arg_control_plane_url = ''https://cp'',
     arg_session_id = ''abc123'', arg_auth_token = ''xyz789'', arg_interval = 2,
     arg_width = 1280, arg_height = 720, arg_quality = 80\<rparr>"

definition demo_config :: StreamerConfig where
  "demo_config = config_of_args demo_args"

definition streaming :: state where
  "streaming = init\<lparr>running := True, browser := Some Browser, page := Some Page,
                     http_client := Some ClientOpen\<rparr>"

definition toy_digest :: "bytes \<Rightarrow> exn + string" where
  "toy_digest bs = Inr (replicate (length bs) CHR ''a'')"

definition calm :: env where
  "calm = \<lparr>now = real, stop_req = (\<lambda>k. False), get_resp = (\<lambda>k. GetStatus 200),
            post_resp = (\<lambda>k. PostStatus 200), shot_resp = (\<lambda>k. ShotBytes (replicate k 0)),
            launch_resp = (\<lambda>k. None), new_page_resp = (\<lambda>k. None), goto_resp = (\<lambda>k. None),
            md5_hexdigest = toy_digest, b64encode = (\<lambda>bs. replicate (length bs) CHR ''A'')\<rparr>"

definition stop_at :: "nat \<Rightarrow> env \<Rightarrow> env" where
  "stop_at n E = E\<lparr>stop_req := (\<lambda>k. k = n)\<rparr>"

definition no_retry_config :: StreamerConfig where
  "no_retry_config = demo_config\<lparr>max_retries := 0\<rparr>"

definition env_503 :: env where
  "env_503 = calm\<lparr>post_resp := (\<lambda>k. PostStatus 503)\<rparr>"

definition env_503_twice :: env where
  "env_503_twice = calm\<lparr>post_resp := (\<lambda>k. if k < 2 then PostStatus 503 else PostStatus 200)\<rparr>"

definition env_reset_twice :: env where
  "env_reset_twice =
     calm\<lparr>post_resp := (\<lambda>k. if k < 3 then PostError (Exn ''connection reset'') else PostStatus 200)\<rparr>"

definition still_env :: env where
  "still_env = stop_at 5 (calm\<lparr>shot_resp := (\<lambda>k. ShotBytes [1, 2, 3])\<rparr>)"

definition env_outage :: env where
  "env_outage =
     stop_at 7 (calm\<lparr>post_resp := (\<lambda>k. if k < 4 then PostStatus 503 else PostStatus 200)\<rparr>)"

definition env_down :: env where
  "env_down = calm\<lparr>get_resp := (\<lambda>k. GetError (Exn ''connection refused'')),
                    now := (\<lambda>n. 25 * real n)\<rparr>"

definition env_warming_up :: env where
  "env_warming_up =
     calm\<lparr>get_resp := (\<lambda>k. if k < 2 then GetError (Exn ''connection refused'')
                             else if k < 4 then GetStatus 502 else GetStatus 404)\<rparr>"

definition env_nav_fail :: env where
  "env_nav_fail = calm\<lparr>goto_resp := (\<lambda>k. Some (Exn ''net::ERR_CONNECTION_REFUSED''))\<rparr>"

definition env_no_browser :: env where
  "env_no_browser = calm\<lparr>launch_resp := (\<lambda>k. Some (Exn ''executable does not exist''))\<rparr>"

definition env_camera_error :: env where
  "env_camera_error = stop_at 3 (calm\<lparr>shot_resp := (\<lambda>k. ShotError (Exn ''target closed''))\<rparr>)"

definition env_no_md5 :: env where
  "env_no_md5 = stop_at 3 (calm\<lparr>md5_hexdigest := (\<lambda>bs. Inl (Exn ''md5 is disabled''))\<rparr>)"

section \<open>Lemmas\<close>

subsection \<open>Traces and fields\<close>

lemma posts_append: "posts (a @ b) = posts a @ posts b"
  by (induction a rule: posts.induct) simp_all

lemma delivered_append: "delivered (a @ b) = delivered a @ delivered b"
  by (induction a rule: delivered.induct) simp_all

lemma io_append: "io (a @ b) = io a @ io b"
  by (simp add: io_def)

lemma emit_fields:
  "running (emit e s) = running s"
  "browser (emit e s) = browser s"
  "page (emit e s) = page s"
  "frame_count (emit e s) = frame_count s"
  "last_frame_hash (emit e s) = last_frame_hash s"
  "http_client (emit e s) = http_client s"
  "tick (emit e s) = tick s"
  "clock_reads (emit e s) = clock_reads s"
  "trace (emit e s) = trace s @ [e]"
  by (simp_all add: emit_def)

lemma read_clock_fields:
  "running (read_clock s) = running s"
  "browser (read_clock s) = browser s"
  "page (read_clock s) = page s"
  "frame_count (read_clock s) = frame_count s"
  "last_frame_hash (read_clock s) = last_frame_hash s"
  "http_client (read_clock s) = http_client s"
  "tick (read_clock s) = tick s"
  "clock_reads (read_clock s) = Suc (clock_reads s)"
  "trace (read_clock s) = trace s"
  by (simp_all add: read_clock_def)

lemma stop_fields:
  "running (stop s) = False"
  "browser (stop s) = browser s"
  "page (stop s) = page s"
  "frame_count (stop s) = frame_count s"
  "last_frame_hash (stop s) = last_frame_hash s"
  "http_client (stop s) = http_client s"
  "tick (stop s) = tick s"
  "clock_reads (stop s) = clock_reads s"
  "posts (trace (stop s)) = posts (trace s)"
  "delivered (trace (stop s)) = delivered (trace s)"
  "io (trace (stop s)) = io (trace s)"
  by (simp_all add: stop_def emit_def Let_def posts_append delivered_append io_def split: option.splits)

lemma suspend_fields:
  "running (suspend E s) = (running s \<and> \<not> stop_req E (tick s))"
  "browser (suspend E s) = browser s"
  "page (suspend E s) = page s"
  "frame_count (suspend E s) = frame_count s"
  "last_frame_hash (suspend E s) = last_frame_hash s"
  "http_client (suspend E s) = http_client s"
  "tick (suspend E s) = Suc (tick s)"
  "clock_reads (suspend E s) = clock_reads s"
  "posts (trace (suspend E s)) = posts (trace s)"
  "delivered (trace (suspend E s)) = delivered (trace s)"
  "io (trace (suspend E s)) = io (trace s)"
  by (simp_all add: suspend_def Let_def stop_fields)

lemma sleep_fields:
  "running (sleep E d s) = (running s \<and> \<not> stop_req E (tick s))"
  "browser (sleep E d s) = browser s"
  "page (sleep E d s) = page s"
  "frame_count (sleep E d s) = frame_count s"
  "last_frame_hash (sleep E d s) = last_frame_hash s"
  "http_client (sleep E d s) = http_client s"
  "tick (sleep E d s) = Suc (tick s)"
  "clock_reads (sleep E d s) = clock_reads s"
  "posts (trace (sleep E d s)) = posts (trace s)"
  "delivered (trace (sleep E d s)) = delivered (trace s)"
  "io (trace (sleep E d s)) = io (trace s) @ [EvSleep d]"
  by (simp_all add: sleep_def suspend_fields emit_fields posts_append delivered_append io_append)
     (simp add: io_def)

lemmas fields = emit_fields read_clock_fields suspend_fields sleep_fields

subsection \<open>\<open>_send_frame\<close>\<close>

lemma send_attempts_frame:
  "frame_count (send_attempts E cfg p as s) = frame_count s \<and>
   last_frame_hash (send_attempts E cfg p as s) = last_frame_hash s \<and>
   http_client (send_attempts E cfg p as s) = http_client s \<and>
   page (send_attempts E cfg p as s) = page s \<and>
   browser (send_attempts E cfg p as s) = browser s"
  by (induction as arbitrary: s)
     (simp_all add: Let_def fields split: post_result.splits)

lemma send_frame_frame:
  "frame_count (send_frame E cfg fd fh s) = frame_count s \<and>
   last_frame_hash (send_frame E cfg fd fh s) = last_frame_hash s \<and>
   http_client (send_frame E cfg fd fh s) = http_client s \<and>
   page (send_frame E cfg fd fh s) = page s \<and>
   browser (send_frame E cfg fd fh s) = browser s"
  by (simp add: send_frame_def send_attempts_frame fields split: option.splits)

lemma send_attempts_all_fail:
  "\<forall>k. post_resp E k \<noteq> PostStatus 200 \<Longrightarrow>
   posts (trace (send_attempts E cfg p as s)) = posts (trace s) @ replicate (length as) p"
proof (induction as arbitrary: s)
  case Nil
  then show ?case by simp
next
  case (Cons a as)
  have ne: "post_resp E (tick s) \<noteq> PostStatus 200" using Cons.prems by blast
  show ?case
  proof (cases "post_resp E (tick s)")
    case (PostStatus c)
    with ne have "c \<noteq> 200" by simp
    with PostStatus show ?thesis
      by (simp add: Let_def Cons.IH [OF Cons.prems] fields posts_append replicate_app_Cons_same)
  next
    case (PostError e)
    then show ?thesis
      by (simp add: Let_def Cons.IH [OF Cons.prems] fields posts_append replicate_app_Cons_same)
  qed
qed

lemma follows_refl: "follows E s s"
  by (simp add: follows_def)

lemma follows_trans: "follows E s s' \<Longrightarrow> follows E s' s'' \<Longrightarrow> follows E s s''"
  unfolding follows_def
  by (metis atLeastLessThan_iff le_trans less_le_trans not_le)

lemma follows_emit: "follows E s (emit e s)"
  by (simp add: follows_def fields)

lemma follows_read_clock: "follows E s (read_clock s)"
  by (simp add: follows_def fields)

lemma follows_suspend: "follows E s (suspend E s)"
  by (simp add: follows_def fields)

lemma follows_sleep: "follows E s (sleep E d s)"
  by (simp add: follows_def fields)

lemma follows_send_attempts: "follows E s (send_attempts E cfg p as s)"
proof (induction as arbitrary: s)
  case Nil
  show ?case by (simp add: follows_refl)
next
  case (Cons a as)
  define s1 where "s1 = suspend E (emit (EvPost (endpoint cfg) (headers cfg) p (post_resp E (tick s))) s)"
  have f1: "follows E s s1"
    unfolding s1_def by (rule follows_trans [OF follows_emit follows_suspend])
  show ?case
  proof (cases "post_resp E (tick s)")
    case (PostStatus c)
    show ?thesis
    proof (cases "c = 200")
      case True
      have eq: "send_attempts E cfg p (a # as) s =
                  (if frame_count s1 mod 10 = 0
                   then emit (EvLog (LogSentFrame (frame_count s1))) s1 else s1)"
        using PostStatus True by (simp add: s1_def Let_def)
      show ?thesis
        unfolding eq using f1 follows_trans [OF f1 follows_emit] by simp
    next
      case False
      have eq: "send_attempts E cfg p (a # as) s =
                  send_attempts E cfg p as (emit (EvLog (LogFrameSendFailed c)) s1)"
        using PostStatus False by (simp add: s1_def Let_def)
      show ?thesis
        unfolding eq by (rule follows_trans [OF follows_trans [OF f1 follows_emit] Cons.IH])
    qed
  next
    case (PostError e)
    define s2 where "s2 = emit (EvLog (LogFrameSendError (a + 1) e)) s1"
    define s3 where "s3 = (if a < max_retries cfg - 1 then sleep E (retry_delay cfg) s2 else s2)"
    have eq: "send_attempts E cfg p (a # as) s = send_attempts E cfg p as s3"
      using PostError by (simp add: s1_def s2_def s3_def Let_def)
    have f2: "follows E s s2"
      unfolding s2_def by (rule follows_trans [OF f1 follows_emit])
    have f3: "follows E s s3"
      unfolding s3_def using f2 follows_trans [OF f2 follows_sleep] by simp
    show ?thesis
      unfolding eq by (rule follows_trans [OF f3 Cons.IH])
  qed
qed

lemma follows_send_frame: "follows E s (send_frame E cfg fd fh s)"
proof (cases "http_client s")
  case None
  then show ?thesis by (simp add: send_frame_def follows_refl)
next
  case (Some c)
  have "follows E s (send_attempts E cfg (make_payload E cfg fd fh s)
                       (py_range (max_retries cfg)) (read_clock s))"
    by (rule follows_trans [OF follows_read_clock follows_send_attempts])
  with Some show ?thesis by (simp add: send_frame_def)
qed

lemma sleeps_append: "sleeps (a @ b) = sleeps a @ sleeps b"
  by (induction a rule: sleeps.induct) simp_all

lemma logs_append: "logs (a @ b) = logs a @ logs b"
  by (induction a rule: logs.induct) simp_all

lemma length_py_range: "length (py_range n) = nat n"
  by (simp add: py_range_def)

lemma send_attempts_all_fail_delivered:
  "\<forall>k. post_resp E k \<noteq> PostStatus 200 \<Longrightarrow>
   delivered (trace (send_attempts E cfg p as s)) = delivered (trace s)"
proof (induction as arbitrary: s)
  case Nil
  then show ?case by simp
next
  case (Cons a as)
  have ne: "post_resp E (tick s) \<noteq> PostStatus 200" using Cons.prems by blast
  show ?case
  proof (cases "post_resp E (tick s)")
    case (PostStatus c)
    with ne have "c \<noteq> 200" by simp
    with PostStatus show ?thesis
      by (simp add: Let_def Cons.IH [OF Cons.prems] fields delivered_append)
  next
    case (PostError e)
    then show ?thesis
      by (simp add: Let_def Cons.IH [OF Cons.prems] fields delivered_append)
  qed
qed

lemma send_attempts_posts_shape:
  "\<exists>n. n \<le> length as \<and>
       posts (trace (send_attempts E cfg p as s)) = posts (trace s) @ replicate n p"
proof (induction as arbitrary: s)
  case Nil
  then show ?case by simp
next
  case (Cons a as)
  define s1 where "s1 = suspend E (emit (EvPost (endpoint cfg) (headers cfg) p (post_resp E (tick s))) s)"
  have p1: "posts (trace s1) = posts (trace s) @ [p]"
    by (simp add: s1_def fields posts_append)
  have rec: "\<exists>n. n \<le> length (a # as) \<and>
       posts (trace (send_attempts E cfg p as s')) = posts (trace s) @ replicate n p"
    if "posts (trace s') = posts (trace s) @ [p]" for s'
  proof -
    obtain n where n: "n \<le> length as"
      "posts (trace (send_attempts E cfg p as s')) = posts (trace s') @ replicate n p"
      using Cons.IH by blast
    have "posts (trace (send_attempts E cfg p as s')) = posts (trace s) @ replicate (Suc n) p"
      using n(2) that by simp
    with n(1) show ?thesis by (metis Suc_le_mono length_Cons)
  qed
  show ?case
  proof (cases "post_resp E (tick s)")
    case (PostStatus c)
    show ?thesis
    proof (cases "c = 200")
      case True
      have "posts (trace (send_attempts E cfg p (a # as) s)) = posts (trace s) @ replicate 1 p"
        using PostStatus True by (simp add: Let_def fields posts_append)
      then show ?thesis by (metis One_nat_def Suc_le_mono length_Cons le0)
    next
      case False
      have eq: "send_attempts E cfg p (a # as) s =
                  send_attempts E cfg p as (emit (EvLog (LogFrameSendFailed c)) s1)"
        using PostStatus False by (simp add: s1_def Let_def)
      show ?thesis unfolding eq by (rule rec) (simp add: fields posts_append p1)
    qed
  next
    case (PostError e)
    define s3 where "s3 = (if a < max_retries cfg - 1
        then sleep E (retry_delay cfg) (emit (EvLog (LogFrameSendError (a + 1) e)) s1)
        else emit (EvLog (LogFrameSendError (a + 1) e)) s1)"
    have eq: "send_attempts E cfg p (a # as) s = send_attempts E cfg p as s3"
      using PostError by (simp add: s1_def s3_def Let_def)
    show ?thesis unfolding eq by (rule rec) (simp add: s3_def fields posts_append p1)
  qed
qed

lemma send_attempts_first_ok:
  "post_resp E (tick s) = PostStatus 200 \<Longrightarrow>
   posts (trace (send_attempts E cfg p (a # as) s)) = posts (trace s) @ [p] \<and>
   delivered (trace (send_attempts E cfg p (a # as) s)) = delivered (trace s) @ [p]"
  by (simp add: Let_def fields posts_append delivered_append)

lemma send_frame_all_fail:
  assumes "\<forall>k. post_resp E k \<noteq> PostStatus 200" and "http_client s = Some c"
  shows "posts (trace (send_frame E cfg fd fh s)) =
           posts (trace s) @ replicate (nat (max_retries cfg)) (make_payload E cfg fd fh s)"
    and "delivered (trace (send_frame E cfg fd fh s)) = delivered (trace s)"
  using assms
  by (simp_all add: send_frame_def send_attempts_all_fail send_attempts_all_fail_delivered
        length_py_range fields)

lemma send_frame_posts_shape:
  "\<exists>n. n \<le> nat (max_retries cfg) \<and> posts (trace (send_frame E cfg fd fh s)) =
         posts (trace s) @ replicate n (make_payload E cfg fd fh s)"
proof (cases "http_client s")
  case None
  then show ?thesis by (simp add: send_frame_def)
next
  case (Some c)
  obtain n where "n \<le> length (py_range (max_retries cfg))"
    "posts (trace (send_attempts E cfg (make_payload E cfg fd fh s) (py_range (max_retries cfg))
        (read_clock s))) = posts (trace (read_clock s)) @ replicate n (make_payload E cfg fd fh s)"
    using send_attempts_posts_shape by blast
  with Some show ?thesis by (auto simp add: send_frame_def length_py_range fields)
qed

lemma send_frame_no_retries:
  "max_retries cfg \<le> 0 \<Longrightarrow> trace (send_frame E cfg fd fh s) = trace s"
  by (simp add: send_frame_def py_range_def fields split: option.splits)

subsection \<open>One cycle\<close>

lemma capture_no_page:
  "page s = None \<Longrightarrow> capture_and_send E cfg s = (Inr (), s)"
  by (simp add: capture_and_send_def)

lemma capture_shot_error:
  "page s = Some pg \<Longrightarrow> shot_resp E (tick s) = ShotError e \<Longrightarrow>
   capture_and_send E cfg s =
     (Inr (), emit (EvLog (LogScreenshotFailed e))
                (suspend E (emit (EvScreenshot (quality cfg) (ShotError e)) s)))"
  by (simp add: capture_and_send_def)

lemma capture_md5_error:
  "page s = Some pg \<Longrightarrow> shot_resp E (tick s) = ShotBytes bs \<Longrightarrow> md5_hexdigest E bs = Inl e \<Longrightarrow>
   capture_and_send E cfg s =
     (Inl e, suspend E (emit (EvScreenshot (quality cfg) (ShotBytes bs)) s))"
  by (simp add: capture_and_send_def)

lemma capture_duplicate:
  "page s = Some pg \<Longrightarrow> shot_resp E (tick s) = ShotBytes bs \<Longrightarrow> md5_hexdigest E bs = Inr d \<Longrightarrow>
   last_frame_hash s = Some (take 16 d) \<Longrightarrow>
   capture_and_send E cfg s =
     (Inr (), suspend E (emit (EvScreenshot (quality cfg) (ShotBytes bs)) s))"
  by (simp add: capture_and_send_def fields)

lemma capture_new:
  "page s = Some pg \<Longrightarrow> shot_resp E (tick s) = ShotBytes bs \<Longrightarrow> md5_hexdigest E bs = Inr d \<Longrightarrow>
   last_frame_hash s \<noteq> Some (take 16 d) \<Longrightarrow>
   capture_and_send E cfg s =
     (Inr (), send_frame E cfg (b64encode E bs) (take 16 d)
                ((suspend E (emit (EvScreenshot (quality cfg) (ShotBytes bs)) s))
                   \<lparr>last_frame_hash := Some (take 16 d), frame_count := frame_count s + 1\<rparr>))"
  by (auto simp add: capture_and_send_def fields Let_def)

text \<open>The five ways through \<open>_capture_and_send\<close>.\<close>

lemma capture_cases:
  obtains (no_page) "page s = None"
  | (shot_error) pg e where "page s = Some pg" "shot_resp E (tick s) = ShotError e"
  | (md5_error) pg bs e where "page s = Some pg" "shot_resp E (tick s) = ShotBytes bs"
      "md5_hexdigest E bs = Inl e"
  | (duplicate) pg bs d where "page s = Some pg" "shot_resp E (tick s) = ShotBytes bs"
      "md5_hexdigest E bs = Inr d" "last_frame_hash s = Some (take 16 d)"
  | (new) pg bs d where "page s = Some pg" "shot_resp E (tick s) = ShotBytes bs"
      "md5_hexdigest E bs = Inr d" "last_frame_hash s \<noteq> Some (take 16 d)"
proof (cases "page s")
  case None
  then show ?thesis by (rule no_page)
next
  case (Some pg)
  show ?thesis
  proof (cases "shot_resp E (tick s)")
    case (ShotError e)
    with Some show ?thesis by (rule shot_error)
  next
    case (ShotBytes bs)
    show ?thesis
    proof (cases "md5_hexdigest E bs")
      case (Inl e)
      with Some ShotBytes show ?thesis by (rule md5_error)
    next
      case (Inr d)
      show ?thesis
      proof (cases "last_frame_hash s = Some (take 16 d)")
        case True
        with Some ShotBytes Inr show ?thesis by (rule duplicate)
      next
        case False
        with Some ShotBytes Inr show ?thesis by (rule new)
      qed
    qed
  qed
qed

lemma follows_update:
  "follows E s s' \<Longrightarrow> follows E s (s'\<lparr>last_frame_hash := h, frame_count := n\<rparr>)"
  by (simp add: follows_def)

lemma follows_capture: "follows E s (snd (capture_and_send E cfg s))"
proof (cases rule: capture_cases [where s = s and E = E])
  case no_page
  then show ?thesis by (simp add: capture_no_page follows_refl)
next
  case (shot_error pg e)
  then show ?thesis
    by (simp add: capture_shot_error
          follows_trans [OF follows_trans [OF follows_emit follows_suspend] follows_emit])
next
  case (md5_error pg bs e)
  then show ?thesis
    by (simp add: capture_md5_error follows_trans [OF follows_emit follows_suspend])
next
  case (duplicate pg bs d)
  then show ?thesis
    by (simp add: capture_duplicate follows_trans [OF follows_emit follows_suspend])
next
  case (new pg bs d)
  then show ?thesis
    by (simp add: capture_new
          follows_trans [OF follows_update [OF follows_trans [OF follows_emit follows_suspend]]
             follows_send_frame])
qed

lemma cycle_eq:
  "cycle E cfg s =
     sleep E (interval cfg)
       (case fst (capture_and_send E cfg s) of
          Inl e \<Rightarrow> emit (EvLog (LogCaptureError e)) (snd (capture_and_send E cfg s))
        | Inr u \<Rightarrow> snd (capture_and_send E cfg s))"
  by (simp add: cycle_def case_prod_beta)

lemma follows_cycle: "follows E s (cycle E cfg s)"
proof (cases "fst (capture_and_send E cfg s)")
  case (Inl e)
  then show ?thesis
    by (simp add: cycle_eq
          follows_trans [OF follows_trans [OF follows_capture follows_emit] follows_sleep])
next
  case (Inr u)
  then show ?thesis
    by (simp add: cycle_eq follows_trans [OF follows_capture follows_sleep])
qed

lemma cycle_io:
  "io (trace (cycle E cfg s)) =
     io (trace (snd (capture_and_send E cfg s))) @ [EvSleep (interval cfg)]"
  by (cases "fst (capture_and_send E cfg s)")
     (simp_all add: cycle_eq fields io_append, simp add: io_def)

lemma cycle_posts:
  "posts (trace (cycle E cfg s)) = posts (trace (snd (capture_and_send E cfg s)))"
  by (cases "fst (capture_and_send E cfg s)") (simp_all add: cycle_eq fields posts_append)

lemma cycle_delivered:
  "delivered (trace (cycle E cfg s)) = delivered (trace (snd (capture_and_send E cfg s)))"
  by (cases "fst (capture_and_send E cfg s)") (simp_all add: cycle_eq fields delivered_append)

lemma cycle_fields:
  "frame_count (cycle E cfg s) = frame_count (snd (capture_and_send E cfg s))"
  "last_frame_hash (cycle E cfg s) = last_frame_hash (snd (capture_and_send E cfg s))"
  "http_client (cycle E cfg s) = http_client (snd (capture_and_send E cfg s))"
  "page (cycle E cfg s) = page (snd (capture_and_send E cfg s))"
  by (cases "fst (capture_and_send E cfg s)"; simp add: cycle_eq fields)+

lemma capture_keeps:
  "http_client (snd (capture_and_send E cfg s)) = http_client s \<and>
   page (snd (capture_and_send E cfg s)) = page s"
  by (cases rule: capture_cases [where s = s and E = E])
     (simp_all add: capture_no_page capture_shot_error capture_md5_error capture_duplicate
        capture_new fields send_frame_frame)

lemma cycle_keeps:
  "http_client (cycle E cfg s) = http_client s \<and> page (cycle E cfg s) = page s"
  by (simp add: cycle_fields capture_keeps)

lemma cycle_tick: "tick s < tick (cycle E cfg s)"
proof -
  have "tick s \<le> tick (case fst (capture_and_send E cfg s) of
          Inl e \<Rightarrow> emit (EvLog (LogCaptureError e)) (snd (capture_and_send E cfg s))
        | Inr u \<Rightarrow> snd (capture_and_send E cfg s))"
    using follows_capture [of E s cfg]
    by (cases "fst (capture_and_send E cfg s)") (simp_all add: follows_def fields)
  then show ?thesis by (simp add: cycle_eq fields)
qed

lemmas run_defs =
  send_frame_def make_payload_def py_range_def capture_and_send_def cycle_def
  sleep_def suspend_def stop_def emit_def read_clock_def endpoint_def headers_def
  begin_run_def close_client_def wait_for_target_def start_def main_def exit_code_def
  demo_args_def demo_config_def config_of_args_def streaming_def init_def toy_digest_def
  calm_def env_503_def env_503_twice_def env_reset_twice_def

lemma frameNumber_make_payload: "frameNumber (make_payload E cfg fd fh s) = frame_count s"
  by (simp add: make_payload_def)

subsection \<open>The capture loop\<close>

lemma post_results_append: "post_results (a @ b) = post_results a @ post_results b"
  by (induction a rule: post_results.induct) simp_all

lemma capture_loop_end: "capture_loop E cfg fuel s = Some s' \<Longrightarrow> \<not> running s'"
  by (induction fuel arbitrary: s) (simp_all split: if_splits)

lemma follows_capture_loop: "capture_loop E cfg fuel s = Some s' \<Longrightarrow> follows E s s'"
proof (induction fuel arbitrary: s)
  case 0
  then show ?case by simp
next
  case (Suc fuel)
  show ?case
  proof (cases "running s")
    case True
    with Suc.prems have "capture_loop E cfg fuel (cycle E cfg s) = Some s'" by simp
    then have "follows E (cycle E cfg s) s'" by (rule Suc.IH)
    with follows_cycle show ?thesis by (rule follows_trans)
  next
    case False
    with Suc.prems show ?thesis by (simp add: follows_refl)
  qed
qed

lemma capture_loop_keeps:
  "capture_loop E cfg fuel s = Some s' \<Longrightarrow> http_client s' = http_client s \<and> page s' = page s"
proof (induction fuel arbitrary: s)
  case 0
  then show ?case by simp
next
  case (Suc fuel)
  show ?case
  proof (cases "running s")
    case True
    with Suc.prems have "capture_loop E cfg fuel (cycle E cfg s) = Some s'" by simp
    from Suc.IH [OF this] show ?thesis by (simp add: cycle_keeps)
  next
    case False
    with Suc.prems show ?thesis by simp
  qed
qed

text \<open>What one cycle can add to the POSTs and to the frame counter.\<close>

lemma capture_numbers:
  "\<exists>n. n \<le> nat (max_retries cfg) \<and>
       map frameNumber (posts (trace (snd (capture_and_send E cfg s)))) =
         map frameNumber (posts (trace s)) @ replicate n (frame_count s + 1)"
proof (cases rule: capture_cases [where s = s and E = E])
  case no_page
  then show ?thesis by (simp add: capture_no_page)
next
  case (shot_error pg e)
  then show ?thesis by (simp add: capture_shot_error fields posts_append)
next
  case (md5_error pg bs e)
  then show ?thesis by (simp add: capture_md5_error fields posts_append)
next
  case (duplicate pg bs d)
  then show ?thesis by (simp add: capture_duplicate fields posts_append)
next
  case (new pg bs d)
  define s2 where "s2 = (suspend E (emit (EvScreenshot (quality cfg) (ShotBytes bs)) s))
                   \<lparr>last_frame_hash := Some (take 16 d), frame_count := frame_count s + 1\<rparr>"
  have cs: "capture_and_send E cfg s = (Inr (), send_frame E cfg (b64encode E bs) (take 16 d) s2)"
    unfolding s2_def using new by (intro capture_new) simp_all
  have s2: "posts (trace s2) = posts (trace s)" "frame_count s2 = frame_count s + 1"
    by (simp_all add: s2_def fields posts_append)
  obtain n where n: "n \<le> nat (max_retries cfg)"
    "posts (trace (send_frame E cfg (b64encode E bs) (take 16 d) s2)) =
       posts (trace s2) @ replicate n (make_payload E cfg (b64encode E bs) (take 16 d) s2)"
    using send_frame_posts_shape by blast
  have "map frameNumber (posts (trace (snd (capture_and_send E cfg s)))) =
         map frameNumber (posts (trace s)) @ replicate n (frame_count s + 1)"
    by (simp add: cs n(2) s2 frameNumber_make_payload)
  with n(1) show ?thesis by blast
qed

lemma capture_frame_count:
  "frame_count s \<le> frame_count (snd (capture_and_send E cfg s))"
  by (cases rule: capture_cases [where s = s and E = E])
     (simp_all add: capture_no_page capture_shot_error capture_md5_error capture_duplicate
        capture_new fields send_frame_frame)

lemma capture_loop_no_retries:
  "max_retries cfg \<le> 0 \<Longrightarrow> capture_loop E cfg fuel s = Some s' \<Longrightarrow>
   posts (trace s') = posts (trace s)"
proof (induction fuel arbitrary: s)
  case 0
  then show ?case by simp
next
  case (Suc fuel)
  show ?case
  proof (cases "running s")
    case True
    with Suc.prems have run: "capture_loop E cfg fuel (cycle E cfg s) = Some s'" by simp
    obtain n where n: "n \<le> nat (max_retries cfg)"
      "map frameNumber (posts (trace (snd (capture_and_send E cfg s)))) =
         map frameNumber (posts (trace s)) @ replicate n (frame_count s + 1)"
      using capture_numbers by blast
    from n(1) Suc.prems(1) have "n = 0" by simp
    with n(2) have "length (posts (trace (snd (capture_and_send E cfg s)))) = length (posts (trace s))"
      by (metis append_Nil2 length_map replicate_0)
    moreover have "\<exists>m. posts (trace (snd (capture_and_send E cfg s))) = posts (trace s) @ m"
      by (cases rule: capture_cases [where s = s and E = E])
         (simp_all add: capture_no_page capture_shot_error capture_md5_error capture_duplicate
            capture_new fields posts_append send_frame_no_retries [OF Suc.prems(1)])
    ultimately have "posts (trace (cycle E cfg s)) = posts (trace s)"
      by (auto simp add: cycle_posts)
    with Suc.IH [OF Suc.prems(1) run] show ?thesis by simp
  next
    case False
    with Suc.prems show ?thesis by simp
  qed
qed

lemma capture_loop_dedup:
  assumes "md5_hexdigest E bs = Inr d"
  shows "\<forall>k. tick s \<le> k \<longrightarrow> shot_resp E k = ShotBytes bs \<Longrightarrow>
     last_frame_hash s = Some (take 16 d) \<Longrightarrow> capture_loop E cfg fuel s = Some s' \<Longrightarrow>
     frame_count s' = frame_count s \<and> posts (trace s') = posts (trace s)
     \<and> last_frame_hash s' = last_frame_hash s"
proof (induction fuel arbitrary: s)
  case 0
  then show ?case by simp
next
  case (Suc fuel)
  show ?case
  proof (cases "running s")
    case True
    with Suc.prems have run: "capture_loop E cfg fuel (cycle E cfg s) = Some s'" by simp
    have shot: "shot_resp E (tick s) = ShotBytes bs" using Suc.prems(1) by simp
    have same: "frame_count (cycle E cfg s) = frame_count s
        \<and> posts (trace (cycle E cfg s)) = posts (trace s)
        \<and> last_frame_hash (cycle E cfg s) = last_frame_hash s"
    proof (cases "page s")
      case None
      then show ?thesis by (simp add: cycle_fields cycle_posts capture_no_page)
    next
      case (Some pg)
      from capture_duplicate [OF Some shot assms Suc.prems(2)]
      show ?thesis by (simp add: cycle_fields cycle_posts fields posts_append)
    qed
    have later: "\<forall>k. tick (cycle E cfg s) \<le> k \<longrightarrow> shot_resp E k = ShotBytes bs"
      using Suc.prems(1) cycle_tick [of s E cfg] by (metis le_trans less_imp_le)
    have "last_frame_hash (cycle E cfg s) = Some (take 16 d)"
      using same Suc.prems(2) by simp
    from Suc.IH [OF later this run] same show ?thesis by simp
  next
    case False
    with Suc.prems show ?thesis by simp
  qed
qed

lemma cycle_stores_hash:
  assumes "page s = Some pg" "shot_resp E (tick s) = ShotBytes bs" "md5_hexdigest E bs = Inr d"
  shows "last_frame_hash (cycle E cfg s) = Some (take 16 d)"
proof (cases "last_frame_hash s = Some (take 16 d)")
  case True
  from capture_duplicate [OF assms True] True show ?thesis
    by (simp add: cycle_fields fields)
next
  case False
  from capture_new [OF assms False] show ?thesis
    by (simp add: cycle_fields send_frame_frame)
qed

lemma capture_loop_numbers:
  "capture_loop E cfg fuel s = Some s' \<Longrightarrow>
   \<exists>ns. map frameNumber (posts (trace s')) = map frameNumber (posts (trace s)) @ ns
        \<and> (\<forall>n\<in>set ns. frame_count s < n) \<and> frame_count s \<le> frame_count s'"
proof (induction fuel arbitrary: s)
  case 0
  then show ?case by simp
next
  case (Suc fuel)
  show ?case
  proof (cases "running s")
    case True
    with Suc.prems have run: "capture_loop E cfg fuel (cycle E cfg s) = Some s'" by simp
    obtain n where n:
      "map frameNumber (posts (trace (cycle E cfg s))) =
         map frameNumber (posts (trace s)) @ replicate n (frame_count s + 1)"
      using capture_numbers [of cfg E s] by (auto simp add: cycle_posts)
    have up: "frame_count s \<le> frame_count (cycle E cfg s)"
      by (simp add: cycle_fields capture_frame_count)
    obtain ns where ns:
      "map frameNumber (posts (trace s')) = map frameNumber (posts (trace (cycle E cfg s))) @ ns"
      "\<forall>n\<in>set ns. frame_count (cycle E cfg s) < n" "frame_count (cycle E cfg s) \<le> frame_count s'"
      using Suc.IH [OF run] by blast
    have "map frameNumber (posts (trace s')) =
            map frameNumber (posts (trace s)) @ (replicate n (frame_count s + 1) @ ns)"
      by (simp add: ns(1) n)
    moreover have "\<forall>m\<in>set (replicate n (frame_count s + 1) @ ns). frame_count s < m"
      using ns(2) up by auto
    moreover have "frame_count s \<le> frame_count s'"
      using ns(3) up by simp
    ultimately show ?thesis by blast
  next
    case False
    with Suc.prems show ?thesis by simp
  qed
qed

subsection \<open>\<open>_wait_for_target\<close>\<close>

lemma wait_loop_timeout:
  "\<not> now E (clock_reads s) - st < tmo \<Longrightarrow>
   wait_loop E cfg st tmo (Suc fuel) s = Some (False, read_clock s)"
  by (simp add: Let_def)

lemma wait_loop_stopped:
  "\<not> running s \<Longrightarrow> wait_loop E cfg st tmo (Suc fuel) s = Some (False, read_clock s)"
  by (simp add: Let_def fields)

lemma wait_loop_found:
  "now E (clock_reads s) - st < tmo \<Longrightarrow> running s \<Longrightarrow> get_resp E (tick s) = GetStatus c \<Longrightarrow>
   c < 500 \<Longrightarrow>
   wait_loop E cfg st tmo (Suc fuel) s =
     Some (True, emit (EvLog (LogTargetAvailable c)) (probed E cfg s))"
  by (simp add: Let_def fields probed_def)

lemma wait_loop_retry:
  "now E (clock_reads s) - st < tmo \<Longrightarrow> running s \<Longrightarrow> \<not> available (get_resp E (tick s)) \<Longrightarrow>
   wait_loop E cfg st tmo (Suc fuel) s = wait_loop E cfg st tmo fuel (sleep E 1 (probed E cfg s))"
  by (cases "get_resp E (tick s)") (simp_all add: Let_def fields probed_def)

lemma wait_loop_cases:
  obtains (timeout) "\<not> now E (clock_reads s) - st < tmo"
  | (stopped) "now E (clock_reads s) - st < tmo" "\<not> running s"
  | (found) c where "now E (clock_reads s) - st < tmo" "running s"
      "get_resp E (tick s) = GetStatus c" "c < 500"
  | (retry) "now E (clock_reads s) - st < tmo" "running s" "\<not> available (get_resp E (tick s))"
proof (cases "now E (clock_reads s) - st < tmo")
  case False
  then show ?thesis by (rule timeout)
next
  case True
  show ?thesis
  proof (cases "running s")
    case False
    with True show ?thesis by (rule stopped)
  next
    case run: True
    show ?thesis
    proof (cases "available (get_resp E (tick s))")
      case False
      with True run show ?thesis by (rule retry)
    next
      case av: True
      then obtain c where "get_resp E (tick s) = GetStatus c" "c < 500"
        by (cases "get_resp E (tick s)") simp_all
      with True run show ?thesis by (rule found)
    qed
  qed
qed

declare wait_loop.simps(2) [simp del]

lemma probed_fields:
  "running (probed E cfg s) = (running s \<and> \<not> stop_req E (tick s))"
  "browser (probed E cfg s) = browser s"
  "page (probed E cfg s) = page s"
  "frame_count (probed E cfg s) = frame_count s"
  "last_frame_hash (probed E cfg s) = last_frame_hash s"
  "http_client (probed E cfg s) = http_client s"
  "tick (probed E cfg s) = Suc (tick s)"
  "clock_reads (probed E cfg s) = Suc (clock_reads s)"
  "posts (trace (probed E cfg s)) = posts (trace s)"
  "delivered (trace (probed E cfg s)) = delivered (trace s)"
  "io (trace (probed E cfg s)) = io (trace s) @ [EvGet (target_url cfg) (get_resp E (tick s))]"
  by (simp_all add: probed_def fields posts_append delivered_append io_append) (simp add: io_def)

lemma wait_loop_keeps:
  "wait_loop E cfg st tmo fuel s = Some (b, s') \<Longrightarrow>
   frame_count s' = frame_count s \<and> last_frame_hash s' = last_frame_hash s
   \<and> http_client s' = http_client s \<and> page s' = page s \<and> browser s' = browser s
   \<and> posts (trace s') = posts (trace s) \<and> delivered (trace s') = delivered (trace s)"
proof (induction fuel arbitrary: s)
  case 0
  then show ?case by simp
next
  case (Suc fuel)
  show ?case
  proof (cases rule: wait_loop_cases [where E = E and s = s and st = st and tmo = tmo])
    case timeout
    with Suc.prems show ?thesis by (auto simp add: wait_loop_timeout fields)
  next
    case stopped
    with Suc.prems show ?thesis by (auto simp add: wait_loop_stopped fields)
  next
    case (found c)
    with Suc.prems show ?thesis
      by (auto simp add: wait_loop_found fields probed_fields posts_append delivered_append)
  next
    case retry
    with Suc.prems have "wait_loop E cfg st tmo fuel (sleep E 1 (probed E cfg s)) = Some (b, s')"
      by (simp add: wait_loop_retry)
    from Suc.IH [OF this] show ?thesis by (simp add: fields probed_fields)
  qed
qed

lemma wait_loop_terminates:
  "tmo \<le> now E (clock_reads s + j) - st \<Longrightarrow> j < fuel \<Longrightarrow>
   \<exists>r. wait_loop E cfg st tmo fuel s = Some r"
proof (induction j arbitrary: s fuel)
  case 0
  then obtain n where n: "fuel = Suc n" by (cases fuel) simp_all
  have "\<not> now E (clock_reads s) - st < tmo" using 0 by simp
  then have "wait_loop E cfg st tmo fuel s = Some (False, read_clock s)"
    unfolding n by (rule wait_loop_timeout)
  then show ?case by blast
next
  case (Suc j)
  then obtain n where n: "fuel = Suc n" "j < n" by (cases fuel) simp_all
  show ?case
  proof (cases rule: wait_loop_cases [where E = E and s = s and st = st and tmo = tmo])
    case timeout
    then have "wait_loop E cfg st tmo fuel s = Some (False, read_clock s)"
      unfolding n(1) by (rule wait_loop_timeout)
    then show ?thesis by blast
  next
    case stopped
    then have "wait_loop E cfg st tmo fuel s = Some (False, read_clock s)"
      unfolding n(1) by (intro wait_loop_stopped)
    then show ?thesis by blast
  next
    case (found c)
    then have "wait_loop E cfg st tmo fuel s =
        Some (True, emit (EvLog (LogTargetAvailable c)) (probed E cfg s))"
      unfolding n(1) by (intro wait_loop_found)
    then show ?thesis by blast
  next
    case retry
    have "tmo \<le> now E (clock_reads (sleep E 1 (probed E cfg s)) + j) - st"
      using Suc.prems(1) by (simp add: fields probed_fields)
    from Suc.IH [OF this n(2)] obtain r where
      "wait_loop E cfg st tmo n (sleep E 1 (probed E cfg s)) = Some r" by blast
    with retry have "wait_loop E cfg st tmo fuel s = Some r"
      unfolding n(1) by (simp add: wait_loop_retry)
    then show ?thesis by blast
  qed
qed

lemma wait_loop_shape:
  "wait_loop E cfg st tmo fuel s = Some (b, s') \<Longrightarrow>
   \<exists>rs fin. (\<forall>r\<in>set rs. \<not> available r)
     \<and> io (trace s') =
         io (trace s) @ concat (map (\<lambda>r. [EvGet (target_url cfg) r, EvSleep 1]) rs) @ fin
     \<and> (if b then \<exists>c. c < 500 \<and> fin = [EvGet (target_url cfg) (GetStatus c)] else fin = [])
     \<and> (\<forall>i<length rs + length fin. now E (clock_reads s + i) - st < tmo)"
proof (induction fuel arbitrary: s)
  case 0
  then show ?case by simp
next
  case (Suc fuel)
  show ?case
  proof (cases rule: wait_loop_cases [where E = E and s = s and st = st and tmo = tmo])
    case timeout
    with Suc.prems have "b = False" "s' = read_clock s"
      by (simp_all add: wait_loop_timeout)
    then have "(\<forall>r\<in>set []. \<not> available r)
       \<and> io (trace s') = io (trace s) @ concat (map (\<lambda>r. [EvGet (target_url cfg) r, EvSleep 1]) []) @ []
       \<and> (if b then \<exists>c. c < 500 \<and> [] = [EvGet (target_url cfg) (GetStatus c)] else [] = [])
       \<and> (\<forall>i<length ([] :: get_result list) + length ([] :: event list).
            now E (clock_reads s + i) - st < tmo)"
      by (simp add: fields)
    then show ?thesis by blast
  next
    case stopped
    with Suc.prems have "b = False" "s' = read_clock s"
      by (simp_all add: wait_loop_stopped)
    then have "(\<forall>r\<in>set []. \<not> available r)
       \<and> io (trace s') = io (trace s) @ concat (map (\<lambda>r. [EvGet (target_url cfg) r, EvSleep 1]) []) @ []
       \<and> (if b then \<exists>c. c < 500 \<and> [] = [EvGet (target_url cfg) (GetStatus c)] else [] = [])
       \<and> (\<forall>i<length ([] :: get_result list) + length ([] :: event list).
            now E (clock_reads s + i) - st < tmo)"
      by (simp add: fields)
    then show ?thesis by blast
  next
    case (found c)
    with Suc.prems have r: "b = True" "s' = emit (EvLog (LogTargetAvailable c)) (probed E cfg s)"
      by (simp_all add: wait_loop_found)
    have "io (trace s') = io (trace s) @ [EvGet (target_url cfg) (GetStatus c)]"
      by (simp add: r fields io_append probed_fields found) (simp add: io_def)
    with found r have "(\<forall>r\<in>set []. \<not> available r)
       \<and> io (trace s') = io (trace s) @ concat (map (\<lambda>r. [EvGet (target_url cfg) r, EvSleep 1]) [])
             @ [EvGet (target_url cfg) (GetStatus c)]
       \<and> (if b then \<exists>c'. c' < 500 \<and> [EvGet (target_url cfg) (GetStatus c)] =
               [EvGet (target_url cfg) (GetStatus c')] else [EvGet (target_url cfg) (GetStatus c)] = [])
       \<and> (\<forall>i<length ([] :: get_result list) + length [EvGet (target_url cfg) (GetStatus c)].
            now E (clock_reads s + i) - st < tmo)"
      by simp
    then show ?thesis by blast
  next
    case retry
    define s1 where "s1 = sleep E 1 (probed E cfg s)"
    from retry Suc.prems have "wait_loop E cfg st tmo fuel s1 = Some (b, s')"
      by (simp add: wait_loop_retry s1_def)
    from Suc.IH [OF this] obtain rs fin where ih:
      "\<forall>r\<in>set rs. \<not> available r"
      "io (trace s') = io (trace s1) @ concat (map (\<lambda>r. [EvGet (target_url cfg) r, EvSleep 1]) rs) @ fin"
      "if b then \<exists>c. c < 500 \<and> fin = [EvGet (target_url cfg) (GetStatus c)] else fin = []"
      "\<forall>i<length rs + length fin. now E (clock_reads s1 + i) - st < tmo"
      by blast
    have io1: "io (trace s1) = io (trace s) @ [EvGet (target_url cfg) (get_resp E (tick s)), EvSleep 1]"
      by (simp add: s1_def fields probed_fields)
    have cr: "clock_reads s1 = Suc (clock_reads s)"
      by (simp add: s1_def fields probed_fields)
    have budget: "\<forall>i<length (get_resp E (tick s) # rs) + length fin.
        now E (clock_reads s + i) - st < tmo"
    proof (intro allI impI)
      fix i assume i: "i < length (get_resp E (tick s) # rs) + length fin"
      show "now E (clock_reads s + i) - st < tmo"
      proof (cases i)
        case 0
        with retry(1) show ?thesis by simp
      next
        case (Suc j)
        with i have "j < length rs + length fin" by simp
        with ih(4) have "now E (clock_reads s1 + j) - st < tmo" by blast
        then show ?thesis by (simp add: cr Suc)
      qed
    qed
    have "(\<forall>r\<in>set (get_resp E (tick s) # rs). \<not> available r)
       \<and> io (trace s') = io (trace s)
            @ concat (map (\<lambda>r. [EvGet (target_url cfg) r, EvSleep 1]) (get_resp E (tick s) # rs)) @ fin
       \<and> (if b then \<exists>c. c < 500 \<and> fin = [EvGet (target_url cfg) (GetStatus c)] else fin = [])
       \<and> (\<forall>i<length (get_resp E (tick s) # rs) + length fin. now E (clock_reads s + i) - st < tmo)"
      using ih(1,3) retry(3) budget by (simp add: ih(2) io1)
    then show ?thesis by blast
  qed
qed

lemma wait_loop_true_quiet:
  "wait_loop E cfg st tmo fuel s = Some (True, s') \<Longrightarrow>
   running s \<and> (\<forall>k. tick s \<le> k \<and> Suc k < tick s' \<longrightarrow> \<not> stop_req E k)"
proof (induction fuel arbitrary: s)
  case 0
  then show ?case by simp
next
  case (Suc fuel)
  show ?case
  proof (cases rule: wait_loop_cases [where E = E and s = s and st = st and tmo = tmo])
    case timeout
    with Suc.prems show ?thesis by (simp add: wait_loop_timeout)
  next
    case stopped
    with Suc.prems show ?thesis by (simp add: wait_loop_stopped)
  next
    case (found c)
    with Suc.prems have "s' = emit (EvLog (LogTargetAvailable c)) (probed E cfg s)"
      by (simp add: wait_loop_found)
    then have "tick s' = Suc (tick s)" by (simp add: fields probed_fields)
    with found(2) show ?thesis by auto
  next
    case retry
    define s1 where "s1 = sleep E 1 (probed E cfg s)"
    from retry Suc.prems have "wait_loop E cfg st tmo fuel s1 = Some (True, s')"
      by (simp add: wait_loop_retry s1_def)
    from Suc.IH [OF this] have ih: "running s1" "\<forall>k. tick s1 \<le> k \<and> Suc k < tick s' \<longrightarrow> \<not> stop_req E k"
      by simp_all
    have t1: "tick s1 = Suc (Suc (tick s))"
      and r1: "running s1 = (running s \<and> \<not> stop_req E (tick s) \<and> \<not> stop_req E (Suc (tick s)))"
      by (simp_all add: s1_def fields probed_fields)
    have "\<not> stop_req E k" if "tick s \<le> k" "Suc k < tick s'" for k
    proof (cases "tick s1 \<le> k")
      case True
      with ih(2) that(2) show ?thesis by blast
    next
      case False
      with t1 that(1) have "k = tick s \<or> k = Suc (tick s)" by arith
      with ih(1) r1 show ?thesis by blast
    qed
    with retry(2) show ?thesis by blast
  qed
qed

lemma wait_for_target_eq:
  "wait_for_target E cfg tmo fuel s =
     wait_loop E cfg (now E (clock_reads s)) tmo fuel (read_clock (emit (EvLog LogWaiting) s))"
  by (simp add: wait_for_target_def Let_def fields)

lemma io_waiting: "io (trace (read_clock (emit (EvLog LogWaiting) s))) = io (trace s)"
  by (simp add: fields io_append) (simp add: io_def)

subsection \<open>\<open>start\<close>\<close>

lemma start_never_available:
  "wait_for_target E cfg 60 fuel (begin_run cfg s) = Some (False, s2) \<Longrightarrow>
   start E cfg fuel s = Some (Inr (), emit (EvLog LogNeverAvailable) s2)"
  by (simp add: start_def)

lemma start_launch_failed:
  "wait_for_target E cfg 60 fuel (begin_run cfg s) = Some (True, s2) \<Longrightarrow>
   launch_resp E (tick s2) = Some e \<Longrightarrow>
   start E cfg fuel s = Some (Inl e, suspend E (emit (EvLaunch (Some e)) s2))"
  by (simp add: start_def)

lemma start_new_page_failed:
  "wait_for_target E cfg 60 fuel (begin_run cfg s) = Some (True, s2) \<Longrightarrow>
   launch_resp E (tick s2) = None \<Longrightarrow>
   new_page_resp E (tick (launched E s2)) = Some e \<Longrightarrow>
   start E cfg fuel s =
     Some (Inl e, suspend E (emit (EvNewPage (viewport_width cfg) (viewport_height cfg) (Some e))
                               (launched E s2)))"
  by (simp add: start_def launched_def Let_def)

lemma start_navigation_failed:
  "wait_for_target E cfg 60 fuel (begin_run cfg s) = Some (True, s2) \<Longrightarrow>
   launch_resp E (tick s2) = None \<Longrightarrow>
   new_page_resp E (tick (launched E s2)) = None \<Longrightarrow>
   goto_resp E (tick (page_opened E cfg (launched E s2))) = Some e \<Longrightarrow>
   start E cfg fuel s =
     Some (Inr (), emit (EvLog (LogNavigateFailed e))
                     (suspend E (emit (EvGoto (target_url cfg) (Some e))
                                   (page_opened E cfg (launched E s2)))))"
  by (simp add: start_def launched_def page_opened_def Let_def)

lemma start_streams:
  "wait_for_target E cfg 60 fuel (begin_run cfg s) = Some (True, s2) \<Longrightarrow>
   launch_resp E (tick s2) = None \<Longrightarrow>
   new_page_resp E (tick (launched E s2)) = None \<Longrightarrow>
   goto_resp E (tick (page_opened E cfg (launched E s2))) = None \<Longrightarrow>
   start E cfg fuel s =
     (case capture_loop E cfg fuel (ready E cfg s2) of
        None \<Rightarrow> None
      | Some s8 \<Rightarrow> Some (Inr (), close_client E s8))"
  by (simp add: start_def launched_def page_opened_def navigated_def ready_def Let_def)

lemma start_cases:
  assumes "start E cfg fuel s = Some (r, s')"
  obtains
    (never_available) s2 where
      "wait_for_target E cfg 60 fuel (begin_run cfg s) = Some (False, s2)"
      "r = Inr ()" "s' = emit (EvLog LogNeverAvailable) s2"
  | (launch_failed) s2 e where
      "wait_for_target E cfg 60 fuel (begin_run cfg s) = Some (True, s2)"
      "r = Inl e" "s' = suspend E (emit (EvLaunch (Some e)) s2)"
  | (new_page_failed) s2 e where
      "wait_for_target E cfg 60 fuel (begin_run cfg s) = Some (True, s2)"
      "r = Inl e"
      "s' = suspend E (emit (EvNewPage (viewport_width cfg) (viewport_height cfg) (Some e))
                         (launched E s2))"
  | (navigation_failed) s2 e where
      "wait_for_target E cfg 60 fuel (begin_run cfg s) = Some (True, s2)"
      "r = Inr ()"
      "s' = emit (EvLog (LogNavigateFailed e))
              (suspend E (emit (EvGoto (target_url cfg) (Some e))
                            (page_opened E cfg (launched E s2))))"
  | (streamed) s2 s8 where
      "wait_for_target E cfg 60 fuel (begin_run cfg s) = Some (True, s2)"
      "capture_loop E cfg fuel (ready E cfg s2) = Some s8"
      "r = Inr ()" "s' = close_client E s8"
proof (cases "wait_for_target E cfg 60 fuel (begin_run cfg s)")
  case None
  with assms show ?thesis by (simp add: start_def)
next
  case (Some w)
  obtain b s2 where w: "w = (b, s2)" by (cases w)
  show ?thesis
  proof (cases b)
    case False
    with Some w have wt: "wait_for_target E cfg 60 fuel (begin_run cfg s) = Some (False, s2)" by simp
    have "r = Inr ()" "s' = emit (EvLog LogNeverAvailable) s2"
      using assms start_never_available [OF wt] by simp_all
    with wt show ?thesis by (rule never_available)
  next
    case True
    with Some w have wt: "wait_for_target E cfg 60 fuel (begin_run cfg s) = Some (True, s2)" by simp
    show ?thesis
    proof (cases "launch_resp E (tick s2)")
      case (Some e)
      have "r = Inl e" "s' = suspend E (emit (EvLaunch (Some e)) s2)"
        using assms start_launch_failed [OF wt Some] by simp_all
      with wt show ?thesis by (rule launch_failed)
    next
      case l: None
      show ?thesis
      proof (cases "new_page_resp E (tick (launched E s2))")
        case (Some e)
        have "r = Inl e"
          "s' = suspend E (emit (EvNewPage (viewport_width cfg) (viewport_height cfg) (Some e))
                         (launched E s2))"
          using assms start_new_page_failed [OF wt l Some] by simp_all
        with wt show ?thesis by (rule new_page_failed)
      next
        case n: None
        show ?thesis
        proof (cases "goto_resp E (tick (page_opened E cfg (launched E s2)))")
          case (Some e)
          have "r = Inr ()"
            "s' = emit (EvLog (LogNavigateFailed e))
              (suspend E (emit (EvGoto (target_url cfg) (Some e))
                            (page_opened E cfg (launched E s2))))"
            using assms start_navigation_failed [OF wt l n Some] by simp_all
          with wt show ?thesis by (rule navigation_failed)
        next
          case g: None
          from assms start_streams [OF wt l n g]
          obtain s8 where "capture_loop E cfg fuel (ready E cfg s2) = Some s8"
            "r = Inr ()" "s' = close_client E s8"
            by (cases "capture_loop E cfg fuel (ready E cfg s2)") simp_all
          with wt show ?thesis by (rule streamed)
        qed
      qed
    qed
  qed
qed

lemma wait_for_target_keeps:
  assumes "wait_for_target E cfg tmo fuel s = Some (b, s')"
  shows "frame_count s' = frame_count s \<and> last_frame_hash s' = last_frame_hash s
   \<and> http_client s' = http_client s \<and> page s' = page s \<and> browser s' = browser s
   \<and> posts (trace s') = posts (trace s) \<and> delivered (trace s') = delivered (trace s)"
proof -
  have "wait_loop E cfg (now E (clock_reads s)) tmo fuel (read_clock (emit (EvLog LogWaiting) s))
          = Some (b, s')"
    using assms by (simp add: wait_for_target_eq)
  from wait_loop_keeps [OF this] show ?thesis
    by (simp add: fields posts_append delivered_append)
qed

lemma begin_run_fields:
  "running (begin_run cfg s)"
  "browser (begin_run cfg s) = browser s"
  "page (begin_run cfg s) = page s"
  "frame_count (begin_run cfg s) = frame_count s"
  "last_frame_hash (begin_run cfg s) = last_frame_hash s"
  "http_client (begin_run cfg s) = Some ClientOpen"
  "tick (begin_run cfg s) = tick s"
  "clock_reads (begin_run cfg s) = clock_reads s"
  "posts (trace (begin_run cfg s)) = posts (trace s)"
  "delivered (trace (begin_run cfg s)) = delivered (trace s)"
  by (simp_all add: begin_run_def Let_def fields posts_append delivered_append)

lemma close_client_running: "running (close_client E s) \<Longrightarrow> running s"
  by (cases "http_client s") (simp_all add: close_client_def fields)

subsection \<open>Runs in which every POST is answered with 200\<close>

lemma py_range_Cons: "1 \<le> n \<Longrightarrow> py_range n = 0 # map int [1..<nat n]"
  by (simp add: py_range_def upt_conv_Cons)

lemma py_range_Nil: "n \<le> 0 \<Longrightarrow> py_range n = []"
  by (simp add: py_range_def)

lemma send_frame_all_ok:
  assumes "\<forall>k. post_resp E k = PostStatus 200"
  shows "posts (trace (send_frame E cfg fd fh s)) =
           posts (trace s) @
           (if can_post cfg s then [make_payload E cfg fd fh s] else [])
       \<and> delivered (trace (send_frame E cfg fd fh s)) =
           delivered (trace s) @
           (if can_post cfg s then [make_payload E cfg fd fh s] else [])"
proof (cases "http_client s")
  case None
  then show ?thesis by (simp add: send_frame_def can_post_def)
next
  case (Some c)
  show ?thesis
  proof (cases "1 \<le> max_retries cfg")
    case True
    have ok: "post_resp E (tick (read_clock s)) = PostStatus 200" using assms by blast
    from send_attempts_first_ok [OF ok] Some True show ?thesis
      by (simp add: send_frame_def py_range_Cons fields can_post_def)
  next
    case False
    with Some show ?thesis by (simp add: send_frame_def py_range_Nil fields can_post_def)
  qed
qed

lemma upto_snoc: "0 \<le> n \<Longrightarrow> [1..n + 1] = [1..n] @ [n + 1]"
  by (simp add: upto_rec2)

lemma cycle_in_sequence:
  assumes ok: "\<forall>k. post_resp E k = PostStatus 200" and inv: "in_sequence cfg s"
  shows "in_sequence cfg (cycle E cfg s)"
proof -
  have cp: "can_post cfg (cycle E cfg s) = can_post cfg s"
    by (simp add: can_post_def cycle_keeps)
  have same: "in_sequence cfg (cycle E cfg s)"
    if "frame_count (snd (capture_and_send E cfg s)) = frame_count s"
       "posts (trace (snd (capture_and_send E cfg s))) = posts (trace s)"
       "delivered (trace (snd (capture_and_send E cfg s))) = delivered (trace s)"
    using inv that
    by (simp add: in_sequence_def cp cycle_fields(1) cycle_posts cycle_delivered)
  show ?thesis
  proof (cases rule: capture_cases [where s = s and E = E])
    case no_page
    then show ?thesis by (intro same) (simp_all add: capture_no_page)
  next
    case (shot_error pg e)
    then show ?thesis
      by (intro same) (simp_all add: capture_shot_error fields posts_append delivered_append)
  next
    case (md5_error pg bs e)
    then show ?thesis
      by (intro same) (simp_all add: capture_md5_error fields posts_append delivered_append)
  next
    case (duplicate pg bs d)
    then show ?thesis
      by (intro same) (simp_all add: capture_duplicate fields posts_append delivered_append)
  next
    case (new pg bs d)
    define s2 where "s2 = (suspend E (emit (EvScreenshot (quality cfg) (ShotBytes bs)) s))
                   \<lparr>last_frame_hash := Some (take 16 d), frame_count := frame_count s + 1\<rparr>"
    have cs: "capture_and_send E cfg s = (Inr (), send_frame E cfg (b64encode E bs) (take 16 d) s2)"
      unfolding s2_def using new by (intro capture_new) simp_all
    have s2: "can_post cfg s2 = can_post cfg s" "posts (trace s2) = posts (trace s)"
      "delivered (trace s2) = delivered (trace s)" "frame_count s2 = frame_count s + 1"
      by (simp_all add: s2_def can_post_def fields posts_append delivered_append)
    note sf = send_frame_all_ok [OF ok, of cfg "b64encode E bs" "take 16 d" s2]
    from inv have fc: "0 \<le> frame_count s" by (simp add: in_sequence_def)
    show ?thesis
      using inv sf fc
      by (simp add: in_sequence_def cp cycle_fields(1) cycle_posts cycle_delivered cs s2
            send_frame_frame frameNumber_make_payload upto_snoc)
  qed
qed

lemma capture_loop_in_sequence:
  assumes ok: "\<forall>k. post_resp E k = PostStatus 200"
  shows "in_sequence cfg s \<Longrightarrow> capture_loop E cfg fuel s = Some s' \<Longrightarrow> in_sequence cfg s'"
proof (induction fuel arbitrary: s)
  case 0
  then show ?case by simp
next
  case (Suc fuel)
  show ?case
  proof (cases "running s")
    case True
    with Suc.prems have run: "capture_loop E cfg fuel (cycle E cfg s) = Some s'" by simp
    from Suc.IH [OF cycle_in_sequence [OF ok Suc.prems(1)] run] show ?thesis .
  next
    case False
    with Suc.prems show ?thesis by simp
  qed
qed

lemma in_sequence_numbers:
  assumes "in_sequence cfg s"
  shows "map frameNumber (delivered (trace s)) = [1..int (length (delivered (trace s)))]"
proof -
  have len: "length (posts (trace s)) = length (map frameNumber (posts (trace s)))" by simp
  show ?thesis
  proof (cases "can_post cfg s")
    case True
    with assms have m: "map frameNumber (posts (trace s)) = [1..frame_count s]"
      and d: "delivered (trace s) = posts (trace s)" and fc: "0 \<le> frame_count s"
      by (simp_all add: in_sequence_def)
    have "int (length (posts (trace s))) = frame_count s"
      unfolding len m using fc by simp
    with m d show ?thesis by simp
  next
    case False
    with assms have "delivered (trace s) = []"
      by (simp add: in_sequence_def)
    then show ?thesis by simp
  qed
qed

lemma in_sequence_cong:
  assumes "in_sequence cfg s" "frame_count s' = frame_count s" "can_post cfg s' = can_post cfg s"
    "posts (trace s') = posts (trace s)" "delivered (trace s') = delivered (trace s)"
  shows "in_sequence cfg s'"
  using assms by (simp add: in_sequence_def)

lemma in_sequence_init: "in_sequence cfg (begin_run cfg init)"
  by (simp add: in_sequence_def begin_run_fields init_def)

lemma ready_fields:
  "frame_count (ready E cfg s) = frame_count s"
  "http_client (ready E cfg s) = http_client s"
  "posts (trace (ready E cfg s)) = posts (trace s)"
  "delivered (trace (ready E cfg s)) = delivered (trace s)"
  by (simp_all add: ready_def navigated_def page_opened_def launched_def fields
        posts_append delivered_append)

lemma launched_fields:
  "frame_count (launched E s) = frame_count s"
  "http_client (launched E s) = http_client s"
  "posts (trace (launched E s)) = posts (trace s)"
  "delivered (trace (launched E s)) = delivered (trace s)"
  by (simp_all add: launched_def fields posts_append delivered_append)

lemma page_opened_fields:
  "frame_count (page_opened E cfg s) = frame_count s"
  "http_client (page_opened E cfg s) = http_client s"
  "posts (trace (page_opened E cfg s)) = posts (trace s)"
  "delivered (trace (page_opened E cfg s)) = delivered (trace s)"
  by (simp_all add: page_opened_def fields posts_append delivered_append)

lemma close_client_fields:
  "frame_count (close_client E s) = frame_count s"
  "can_post cfg (close_client E s) = can_post cfg s"
  "posts (trace (close_client E s)) = posts (trace s)"
  "delivered (trace (close_client E s)) = delivered (trace s)"
  by (cases "http_client s";
      simp add: close_client_def can_post_def fields posts_append delivered_append)+

section \<open>The claims\<close>

subsection \<open>C1: a delivery that fails every time\<close>

text \<open>
  C1, as the code has it. \<open>_send_frame\<close> runs \<open>for attempt in range(max_retries)\<close>: when no
  attempt is answered with status 200 it POSTs the payload exactly \<open>max_retries\<close> times
  (not at all when \<open>max_retries \<le> 0\<close>), and nothing is delivered. In the cycle that
  captured the frame, \<open>_capture_and_send\<close> then returns without an exception, every one
  of the POSTs carried the sequence number \<open>frame_count + 1\<close>, the last thing the
  iteration does is sleep for \<open>interval\<close>, the running flag is cleared only if a stop ran
  during one of the suspensions, and a running loop goes on with the next iteration.
\<close>

theorem failed_delivery_attempts:
  assumes "\<forall>k. post_resp E k \<noteq> PostStatus 200" and "http_client s = Some c"
  shows "posts (trace (send_frame E cfg fd fh s)) =
           posts (trace s) @ replicate (nat (max_retries cfg)) (make_payload E cfg fd fh s)
       \<and> delivered (trace (send_frame E cfg fd fh s)) = delivered (trace s)
       \<and> (page s = Some pg \<and> shot_resp E (tick s) = ShotBytes bs \<and> md5_hexdigest E bs = Inr d
            \<and> last_frame_hash s \<noteq> Some (take 16 d) \<longrightarrow>
            fst (capture_and_send E cfg s) = Inr ()
          \<and> map frameNumber (posts (trace (cycle E cfg s))) =
              map frameNumber (posts (trace s)) @ replicate (nat (max_retries cfg)) (frame_count s + 1)
          \<and> delivered (trace (cycle E cfg s)) = delivered (trace s)
          \<and> io (trace (cycle E cfg s)) =
              io (trace (snd (capture_and_send E cfg s))) @ [EvSleep (interval cfg)]
          \<and> follows E s (cycle E cfg s)
          \<and> (running s \<longrightarrow> capture_loop E cfg (Suc fuel) s = capture_loop E cfg fuel (cycle E cfg s)))"
proof (intro conjI impI)
  show "posts (trace (send_frame E cfg fd fh s)) =
          posts (trace s) @ replicate (nat (max_retries cfg)) (make_payload E cfg fd fh s)"
    using assms by (rule send_frame_all_fail(1))
  show "delivered (trace (send_frame E cfg fd fh s)) = delivered (trace s)"
    using assms by (rule send_frame_all_fail(2))
next
  assume new: "page s = Some pg \<and> shot_resp E (tick s) = ShotBytes bs \<and> md5_hexdigest E bs = Inr d
            \<and> last_frame_hash s \<noteq> Some (take 16 d)"
  define s2 where "s2 = (suspend E (emit (EvScreenshot (quality cfg) (ShotBytes bs)) s))
                   \<lparr>last_frame_hash := Some (take 16 d), frame_count := frame_count s + 1\<rparr>"
  have cs: "capture_and_send E cfg s = (Inr (), send_frame E cfg (b64encode E bs) (take 16 d) s2)"
    unfolding s2_def using new by (intro capture_new) simp_all
  have s2: "http_client s2 = Some c" "posts (trace s2) = posts (trace s)"
    "delivered (trace s2) = delivered (trace s)" "frame_count s2 = frame_count s + 1"
    using assms(2) by (simp_all add: s2_def fields posts_append delivered_append)
  show "fst (capture_and_send E cfg s) = Inr ()"
    by (simp add: cs)
  show "map frameNumber (posts (trace (cycle E cfg s))) =
          map frameNumber (posts (trace s)) @ replicate (nat (max_retries cfg)) (frame_count s + 1)"
    by (simp add: cycle_posts cs send_frame_all_fail(1) [OF assms(1) s2(1)] s2
          frameNumber_make_payload)
  show "delivered (trace (cycle E cfg s)) = delivered (trace s)"
    by (simp add: cycle_delivered cs send_frame_all_fail(2) [OF assms(1) s2(1)] s2)
  show "io (trace (cycle E cfg s)) =
          io (trace (snd (capture_and_send E cfg s))) @ [EvSleep (interval cfg)]"
    by (rule cycle_io)
  show "follows E s (cycle E cfg s)"
    by (rule follows_cycle)
next
  assume "running s"
  then show "capture_loop E cfg (Suc fuel) s = capture_loop E cfg fuel (cycle E cfg s)"
    by simp
qed

theorem failed_delivery_attempts_counterexample:
  "length (posts (trace (send_frame env_503 demo_config ''data'' ''hash'' streaming))) = 3
   \<and> nat (max_retries demo_config + 1) = 4"
  by (simp add: run_defs Let_def upt_conv_Cons posts_append)

theorem failed_delivery_attempts_witness:
  "(\<forall>k. post_resp (stop_at 9 env_503) k \<noteq> PostStatus 200)
   \<and> http_client streaming = Some ClientOpen
   \<and> page streaming = Some Page
   \<and> shot_resp (stop_at 9 env_503) (tick streaming) = ShotBytes []
   \<and> md5_hexdigest (stop_at 9 env_503) [] = Inr []
   \<and> last_frame_hash streaming \<noteq> Some (take 16 [])
   \<and> running streaming
   \<and> map frameNumber (posts (trace (cycle (stop_at 9 env_503) demo_config streaming))) = [1, 1, 1]
   \<and> delivered (trace (cycle (stop_at 9 env_503) demo_config streaming)) = []
   \<and> running (cycle (stop_at 9 env_503) demo_config streaming)
   \<and> (\<exists>s'. capture_loop (stop_at 9 env_503) demo_config 3 streaming = Some s'
         \<and> map frameNumber (posts (trace s')) = [1, 1, 1, 2, 2, 2]
         \<and> delivered (trace s') = [] \<and> sleeps (trace s') = [2, 2])"
proof -
  have h1: "\<forall>k. post_resp (stop_at 9 env_503) k \<noteq> PostStatus 200"
    by (simp add: stop_at_def env_503_def calm_def)
  have h2: "http_client streaming = Some ClientOpen"
    by (simp add: streaming_def init_def)
  have h3: "page streaming = Some Page \<and> shot_resp (stop_at 9 env_503) (tick streaming) = ShotBytes []
      \<and> md5_hexdigest (stop_at 9 env_503) [] = Inr []
      \<and> last_frame_hash streaming \<noteq> Some (take 16 [])"
    by (simp add: streaming_def init_def stop_at_def env_503_def calm_def toy_digest_def)
  have h4: "running streaming"
    by (simp add: streaming_def init_def)
  have start: "frame_count streaming = 0" "posts (trace streaming) = []"
    "delivered (trace streaming) = []" "max_retries demo_config = 3"
    by (simp_all add: streaming_def init_def demo_config_def config_of_args_def)
  have still: "running (cycle (stop_at 9 env_503) demo_config streaming)"
    by (simp add: run_defs stop_at_def Let_def upt_conv_Cons)
  obtain s' where rest:
    "capture_loop (stop_at 9 env_503) demo_config 2 (cycle (stop_at 9 env_503) demo_config streaming)
       = Some s'"
    and tr: "map frameNumber (posts (trace s')) = [1, 1, 1, 2, 2, 2]" "delivered (trace s') = []"
      "sleeps (trace s') = [2, 2]"
    by (simp add: eval_nat_numeral run_defs stop_at_def Let_def upt_conv_Cons)
  note t = failed_delivery_attempts [OF h1 h2, of demo_config "''data''" "''hash''" Page "[]" "[]" 2]
  from t h3 h4 have one: "map frameNumber (posts (trace (cycle (stop_at 9 env_503) demo_config streaming)))
      = [1, 1, 1]
    \<and> delivered (trace (cycle (stop_at 9 env_503) demo_config streaming)) = []
    \<and> capture_loop (stop_at 9 env_503) demo_config 3 streaming
       = capture_loop (stop_at 9 env_503) demo_config 2
           (cycle (stop_at 9 env_503) demo_config streaming)"
    by (simp add: start eval_nat_numeral)
  with rest tr have "capture_loop (stop_at 9 env_503) demo_config 3 streaming = Some s'
         \<and> map frameNumber (posts (trace s')) = [1, 1, 1, 2, 2, 2]
         \<and> delivered (trace s') = [] \<and> sleeps (trace s') = [2, 2]"
    by simp
  then have "\<exists>s'. capture_loop (stop_at 9 env_503) demo_config 3 streaming = Some s'
         \<and> map frameNumber (posts (trace s')) = [1, 1, 1, 2, 2, 2]
         \<and> delivered (trace s') = [] \<and> sleeps (trace s') = [2, 2]"
    by (rule exI)
  with h1 h2 h3 h4 one still show ?thesis
    by simp
qed

subsection \<open>C2: an unchanged frame\<close>

text \<open>
  C2. A capture whose fingerprint (the first 16 hex digits of the digest) is the stored
  one is a no-op: \<open>_capture_and_send\<close> returns, the frame counter and the stored
  fingerprint are as before, and no POST is made. After any cycle that captured the bytes
  \<open>bs\<close> the stored fingerprint is that of \<open>bs\<close>, whatever became of the delivery; so in a
  run of captures that all return \<open>bs\<close>, once its first cycle is over, the rest of the
  loop makes no POST and consumes no sequence number.
\<close>

theorem unchanged_frame_is_skipped:
  assumes "md5_hexdigest E bs = Inr d" and "page s = Some pg"
  shows "(shot_resp E (tick s) = ShotBytes bs \<and> last_frame_hash s = Some (take 16 d) \<longrightarrow>
            fst (capture_and_send E cfg s) = Inr ()
          \<and> frame_count (snd (capture_and_send E cfg s)) = frame_count s
          \<and> last_frame_hash (snd (capture_and_send E cfg s)) = last_frame_hash s
          \<and> posts (trace (snd (capture_and_send E cfg s))) = posts (trace s))
       \<and> (shot_resp E (tick s) = ShotBytes bs \<longrightarrow>
            last_frame_hash (cycle E cfg s) = Some (take 16 d))
       \<and> ((\<forall>k. tick s \<le> k \<longrightarrow> shot_resp E k = ShotBytes bs)
            \<and> capture_loop E cfg fuel (cycle E cfg s) = Some s' \<longrightarrow>
            frame_count s' = frame_count (cycle E cfg s)
          \<and> posts (trace s') = posts (trace (cycle E cfg s)))"
proof (intro conjI impI)
  assume dup: "shot_resp E (tick s) = ShotBytes bs \<and> last_frame_hash s = Some (take 16 d)"
  then have cs: "capture_and_send E cfg s =
      (Inr (), suspend E (emit (EvScreenshot (quality cfg) (ShotBytes bs)) s))"
    using assms by (intro capture_duplicate) simp_all
  show "fst (capture_and_send E cfg s) = Inr ()"
    "frame_count (snd (capture_and_send E cfg s)) = frame_count s"
    "last_frame_hash (snd (capture_and_send E cfg s)) = last_frame_hash s"
    "posts (trace (snd (capture_and_send E cfg s))) = posts (trace s)"
    by (simp_all add: cs fields posts_append)
next
  assume "shot_resp E (tick s) = ShotBytes bs"
  with assms show "last_frame_hash (cycle E cfg s) = Some (take 16 d)"
    by (intro cycle_stores_hash [of s pg E bs d]) simp_all
next
  assume run: "(\<forall>k. tick s \<le> k \<longrightarrow> shot_resp E k = ShotBytes bs)
            \<and> capture_loop E cfg fuel (cycle E cfg s) = Some s'"
  then have shot: "shot_resp E (tick s) = ShotBytes bs" by simp
  have later: "\<forall>k. tick (cycle E cfg s) \<le> k \<longrightarrow> shot_resp E k = ShotBytes bs"
    using run cycle_tick [of s E cfg] by (metis le_trans less_imp_le)
  have stored: "last_frame_hash (cycle E cfg s) = Some (take 16 d)"
    using assms(2) shot assms(1) by (rule cycle_stores_hash)
  from capture_loop_dedup [OF assms(1) later stored conjunct2 [OF run]]
  show "frame_count s' = frame_count (cycle E cfg s)"
    "posts (trace s') = posts (trace (cycle E cfg s))"
    by simp_all
qed

theorem unchanged_frame_is_skipped_witness:
  "md5_hexdigest still_env [1, 2, 3] = Inr ''aaa''
   \<and> page streaming = Some Page
   \<and> (\<forall>k. shot_resp still_env k = ShotBytes [1, 2, 3])
   \<and> last_frame_hash (cycle still_env demo_config streaming) = Some ''aaa''
   \<and> map frameNumber (posts (trace (cycle still_env demo_config streaming))) = [1]
   \<and> frame_count (cycle still_env demo_config streaming) = 1
   \<and> (\<exists>s'. capture_loop still_env demo_config 3 (cycle still_env demo_config streaming) = Some s'
         \<and> frame_count s' = 1 \<and> map frameNumber (posts (trace s')) = [1]
         \<and> length (sleeps (trace s')) = 3)"
proof -
  have h1: "md5_hexdigest still_env [1, 2, 3] = Inr ''aaa''"
    by (simp add: still_env_def stop_at_def calm_def toy_digest_def)
  have h2: "page streaming = Some Page"
    by (simp add: streaming_def init_def)
  have h3: "\<forall>k. shot_resp still_env k = ShotBytes [1, 2, 3]"
    by (simp add: still_env_def stop_at_def calm_def)
  have first: "map frameNumber (posts (trace (cycle still_env demo_config streaming))) = [1]"
    "frame_count (cycle still_env demo_config streaming) = 1"
    by (simp_all add: run_defs still_env_def stop_at_def Let_def upt_conv_Cons)
  obtain s' where run:
    "capture_loop still_env demo_config 3 (cycle still_env demo_config streaming) = Some s'"
    and sl: "length (sleeps (trace s')) = 3"
    by (simp add: eval_nat_numeral run_defs still_env_def stop_at_def Let_def upt_conv_Cons)
  note t = unchanged_frame_is_skipped [OF h1 h2, of demo_config 3 s']
  from t h3 run sl first show ?thesis
    by (simp add: h1 h2)
qed

subsection \<open>C3: sequence numbers when every delivery succeeds\<close>

text \<open>
  C3. In a run of \<open>start\<close> on a new streamer in which every POST is answered with status
  200, every POST made is a delivery, and the \<open>frameNumber\<close>s of the delivered payloads
  are, in the order of delivery, 1, 2, ..., up to their number.
\<close>

theorem delivered_numbers_are_consecutive:
  assumes "\<forall>k. post_resp E k = PostStatus 200" and "start E cfg fuel init = Some (r, s')"
  shows "map frameNumber (delivered (trace s')) = [1..int (length (delivered (trace s')))]
       \<and> delivered (trace s') = posts (trace s')"
proof -
  have w: "in_sequence cfg s2"
    if "wait_for_target E cfg 60 fuel (begin_run cfg init) = Some (b, s2)" for b s2
    using wait_for_target_keeps [OF that]
    by (intro in_sequence_cong [OF in_sequence_init]) (simp_all add: can_post_def)
  have "in_sequence cfg s'"
    using assms(2)
  proof (cases rule: start_cases)
    case (never_available s2)
    from w [OF never_available(1)] show ?thesis
      by (rule in_sequence_cong)
         (simp_all add: never_available(3) can_post_def fields posts_append delivered_append)
  next
    case (launch_failed s2 e)
    from w [OF launch_failed(1)] show ?thesis
      by (rule in_sequence_cong)
         (simp_all add: launch_failed(3) can_post_def fields posts_append delivered_append)
  next
    case (new_page_failed s2 e)
    from w [OF new_page_failed(1)] show ?thesis
      by (rule in_sequence_cong)
         (simp_all add: new_page_failed(3) can_post_def fields launched_fields
            posts_append delivered_append)
  next
    case (navigation_failed s2 e)
    from w [OF navigation_failed(1)] show ?thesis
      by (rule in_sequence_cong)
         (simp_all add: navigation_failed(3) can_post_def fields launched_fields
            page_opened_fields posts_append delivered_append)
  next
    case (streamed s2 s8)
    have "in_sequence cfg (ready E cfg s2)"
      using w [OF streamed(1)]
      by (rule in_sequence_cong) (simp_all add: can_post_def ready_fields)
    from capture_loop_in_sequence [OF assms(1) this streamed(2)]
    show ?thesis
      by (rule in_sequence_cong) (simp_all add: streamed(4) close_client_fields)
  qed
  then show ?thesis
    using in_sequence_numbers [of cfg s'] by (simp add: in_sequence_def)
qed

theorem delivered_numbers_are_consecutive_witness:
  "(\<forall>k. post_resp (stop_at 12 calm) k = PostStatus 200)
   \<and> (\<exists>s'. start (stop_at 12 calm) demo_config 4 init = Some (Inr (), s')
         \<and> map frameNumber (delivered (trace s')) = [1, 2, 3]
         \<and> map frameHash (delivered (trace s')) = [''aaaa'', ''aaaaaaa'', ''aaaaaaaaaa'']
         \<and> sleeps (trace s') = [2, 2, 2])"
proof -
  have h: "\<forall>k. post_resp (stop_at 12 calm) k = PostStatus 200"
    by (simp add: stop_at_def calm_def)
  obtain s' where run: "start (stop_at 12 calm) demo_config 4 init = Some (Inr (), s')"
    and d: "length (delivered (trace s')) = 3"
      "map frameHash (delivered (trace s')) = [''aaaa'', ''aaaaaaa'', ''aaaaaaaaaa'']"
      "sleeps (trace s') = [2, 2, 2]"
    by (simp add: eval_nat_numeral run_defs stop_at_def Let_def wait_loop.simps(2) upt_conv_Cons)
  from conjunct1 [OF delivered_numbers_are_consecutive [OF h run]] d(1)
  have "map frameNumber (delivered (trace s')) = [1, 2, 3]"
    by (simp add: upto_rec1)
  with run d(2,3) have "start (stop_at 12 calm) demo_config 4 init = Some (Inr (), s')
         \<and> map frameNumber (delivered (trace s')) = [1, 2, 3]
         \<and> map frameHash (delivered (trace s')) = [''aaaa'', ''aaaaaaa'', ''aaaaaaaaaa'']
         \<and> sleeps (trace s') = [2, 2, 2]"
    by (intro conjI)
  then have "\<exists>s'. start (stop_at 12 calm) demo_config 4 init = Some (Inr (), s')
         \<and> map frameNumber (delivered (trace s')) = [1, 2, 3]
         \<and> map frameHash (delivered (trace s')) = [''aaaa'', ''aaaaaaa'', ''aaaaaaaaaa'']
         \<and> sleeps (trace s') = [2, 2, 2]"
    by (rule exI)
  with h show ?thesis by (rule conjI)
qed

subsection \<open>C4: the sequence number of a dropped frame\<close>

text \<open>
  C4. \<open>_send_frame\<close> never writes \<open>frame_count\<close> or \<open>last_frame_hash\<close>, whatever the answers
  to its POSTs. So in a cycle that captures a new frame the sequence number
  \<open>frame_count + 1\<close> is consumed and the fingerprint stored before the delivery starts
  and stay so when the delivery is given up: every POST of the rest of the loop carries
  a strictly higher \<open>frameNumber\<close>, and if the next capture returns the same bytes that
  cycle makes no POST and the counter does not move.
\<close>

theorem dropped_frame_number_is_skipped:
  "frame_count (send_frame E cfg fd fh s) = frame_count s
   \<and> last_frame_hash (send_frame E cfg fd fh s) = last_frame_hash s
   \<and> (page s = Some pg \<and> shot_resp E (tick s) = ShotBytes bs \<and> md5_hexdigest E bs = Inr d
        \<and> last_frame_hash s \<noteq> Some (take 16 d) \<longrightarrow>
        frame_count (cycle E cfg s) = frame_count s + 1
      \<and> last_frame_hash (cycle E cfg s) = Some (take 16 d)
      \<and> (capture_loop E cfg fuel (cycle E cfg s) = Some s' \<longrightarrow>
           (\<exists>ns. map frameNumber (posts (trace s')) =
                   map frameNumber (posts (trace (cycle E cfg s))) @ ns
                 \<and> (\<forall>n\<in>set ns. frame_count s + 1 < n)))
      \<and> (shot_resp E (tick (cycle E cfg s)) = ShotBytes bs \<longrightarrow>
           posts (trace (cycle E cfg (cycle E cfg s))) = posts (trace (cycle E cfg s))
         \<and> frame_count (cycle E cfg (cycle E cfg s)) = frame_count s + 1))"
proof (intro conjI impI)
  show "frame_count (send_frame E cfg fd fh s) = frame_count s"
    "last_frame_hash (send_frame E cfg fd fh s) = last_frame_hash s"
    by (simp_all add: send_frame_frame)
next
  assume new: "page s = Some pg \<and> shot_resp E (tick s) = ShotBytes bs \<and> md5_hexdigest E bs = Inr d
        \<and> last_frame_hash s \<noteq> Some (take 16 d)"
  define s2 where "s2 = (suspend E (emit (EvScreenshot (quality cfg) (ShotBytes bs)) s))
                   \<lparr>last_frame_hash := Some (take 16 d), frame_count := frame_count s + 1\<rparr>"
  have cs: "capture_and_send E cfg s = (Inr (), send_frame E cfg (b64encode E bs) (take 16 d) s2)"
    unfolding s2_def using new by (intro capture_new) simp_all
  show fc: "frame_count (cycle E cfg s) = frame_count s + 1"
    by (simp add: cycle_fields cs send_frame_frame s2_def)
  show lh: "last_frame_hash (cycle E cfg s) = Some (take 16 d)"
    by (simp add: cycle_fields cs send_frame_frame s2_def)
  have pg: "page (cycle E cfg s) = Some pg"
    using new by (simp add: cycle_keeps)
  {
    assume "capture_loop E cfg fuel (cycle E cfg s) = Some s'"
    from capture_loop_numbers [OF this]
    show "\<exists>ns. map frameNumber (posts (trace s')) =
                   map frameNumber (posts (trace (cycle E cfg s))) @ ns
                 \<and> (\<forall>n\<in>set ns. frame_count s + 1 < n)"
      unfolding fc by blast
  }
  {
    assume again: "shot_resp E (tick (cycle E cfg s)) = ShotBytes bs"
    have md5: "md5_hexdigest E bs = Inr d" using new by simp
    have d: "capture_and_send E cfg (cycle E cfg s) =
        (Inr (), suspend E (emit (EvScreenshot (quality cfg) (ShotBytes bs)) (cycle E cfg s)))"
      using pg again md5 lh by (rule capture_duplicate)
    have "posts (trace (cycle E cfg (cycle E cfg s))) =
            posts (trace (snd (capture_and_send E cfg (cycle E cfg s))))"
      by (rule cycle_posts)
    also have "\<dots> = posts (trace (cycle E cfg s))"
      by (simp add: d fields posts_append)
    finally show "posts (trace (cycle E cfg (cycle E cfg s))) = posts (trace (cycle E cfg s))" .
    have "frame_count (cycle E cfg (cycle E cfg s)) =
            frame_count (snd (capture_and_send E cfg (cycle E cfg s)))"
      by (rule cycle_fields(1))
    also have "\<dots> = frame_count (cycle E cfg s)"
      by (simp add: d fields)
    finally show "frame_count (cycle E cfg (cycle E cfg s)) = frame_count s + 1"
      by (simp only: fc)
  }
qed

theorem dropped_frame_number_is_skipped_witness:
  "page streaming = Some Page
   \<and> shot_resp env_outage (tick streaming) = ShotBytes []
   \<and> md5_hexdigest env_outage [] = Inr []
   \<and> last_frame_hash streaming \<noteq> Some (take 16 [])
   \<and> frame_count (cycle env_outage demo_config streaming) = 1
   \<and> map frameNumber (posts (trace (cycle env_outage demo_config streaming))) = [1, 1, 1]
   \<and> delivered (trace (cycle env_outage demo_config streaming)) = []
   \<and> (\<exists>s'. capture_loop env_outage demo_config 2 (cycle env_outage demo_config streaming) = Some s'
         \<and> map frameNumber (posts (trace s')) = [1, 1, 1, 2]
         \<and> map frameNumber (delivered (trace s')) = [2])"
proof -
  have h: "page streaming = Some Page \<and> shot_resp env_outage (tick streaming) = ShotBytes []
     \<and> md5_hexdigest env_outage [] = Inr [] \<and> last_frame_hash streaming \<noteq> Some (take 16 [])"
    by (simp add: streaming_def init_def env_outage_def stop_at_def calm_def toy_digest_def)
  have first: "map frameNumber (posts (trace (cycle env_outage demo_config streaming))) = [1, 1, 1]"
    "delivered (trace (cycle env_outage demo_config streaming)) = []"
    by (simp_all add: run_defs env_outage_def stop_at_def Let_def upt_conv_Cons)
  obtain s' where run:
    "capture_loop env_outage demo_config 2 (cycle env_outage demo_config streaming) = Some s'"
    and nums: "map frameNumber (posts (trace s')) = [1, 1, 1, 2]"
      "map frameNumber (delivered (trace s')) = [2]"
    by (simp add: eval_nat_numeral run_defs env_outage_def stop_at_def Let_def upt_conv_Cons)
  have start: "frame_count streaming = 0"
    by (simp add: streaming_def init_def)
  note t = dropped_frame_number_is_skipped [of env_outage demo_config "''data''" "''hash''"
      streaming Page "[]" "[]" 2 s']
  from t h run nums first show ?thesis
    by (simp add: start)
qed

subsection \<open>C5: the delay between attempts\<close>

text \<open>
  C5. The \<open>asyncio.sleep(retry_delay)\<close> of \<open>_send_frame\<close> stands in the \<open>except\<close> branch
  only. Two 503 answers and then a 200: three POSTs and no sleep between them. Two
  transport errors and then a 200: the same three POSTs, with a sleep of \<open>retry_delay\<close>
  after each failed one.
\<close>

theorem retry_after_status_does_not_wait:
  "post_results (trace (send_frame env_503_twice demo_config ''data'' ''hash'' streaming)) =
     [PostStatus 503, PostStatus 503, PostStatus 200]
   \<and> sleeps (trace (send_frame env_503_twice demo_config ''data'' ''hash'' streaming)) = []
   \<and> post_results (trace (send_frame env_reset_twice demo_config ''data'' ''hash'' streaming)) =
     [PostError (Exn ''connection reset''), PostError (Exn ''connection reset''), PostStatus 200]
   \<and> sleeps (trace (send_frame env_reset_twice demo_config ''data'' ''hash'' streaming)) =
     [retry_delay demo_config, retry_delay demo_config]"
  by (simp add: run_defs Let_def upt_conv_Cons)

subsection \<open>C6: waiting for the target\<close>

text \<open>
  C6, as the code has it. The call returns as soon as a check finds the budget used up,
  so it returns whenever the clock gets there. When it returns, what it did on the
  network is: for each probe that was not answered with a status below 500 (a transport
  error is one of them, and goes no further), the GET followed by a sleep of one second;
  and, exactly when the result is \<open>True\<close>, one last GET answered with a status below 500.
  Every one of these probes was issued after a check that found less than the budget
  elapsed. The running flag is tested at the head of each iteration only: a \<open>True\<close>
  result means that no stop ran during any suspension before the last GET (one that
  runs during the last GET does not change the result), and a call entered with the flag
  cleared returns \<open>False\<close> without a probe.
\<close>

theorem wait_for_target_contract:
  "(timeout \<le> now E (Suc (clock_reads s) + j) - now E (clock_reads s) \<and> j < fuel \<longrightarrow>
      (\<exists>r. wait_for_target E cfg timeout fuel s = Some r))
   \<and> (wait_for_target E cfg timeout fuel s = Some (b, s') \<longrightarrow>
        (\<exists>rs fin. (\<forall>r\<in>set rs. \<not> available r)
           \<and> io (trace s') =
               io (trace s) @ concat (map (\<lambda>r. [EvGet (target_url cfg) r, EvSleep 1]) rs) @ fin
           \<and> (if b then \<exists>c. c < 500 \<and> fin = [EvGet (target_url cfg) (GetStatus c)] else fin = [])
           \<and> (\<forall>i<length rs + length fin.
                 now E (Suc (clock_reads s) + i) - now E (clock_reads s) < timeout))
      \<and> (b \<longrightarrow> running s \<and> (\<forall>k. tick s \<le> k \<and> Suc k < tick s' \<longrightarrow> \<not> stop_req E k)))
   \<and> (\<not> running s \<and> 0 < fuel \<longrightarrow>
        (\<exists>s'. wait_for_target E cfg timeout fuel s = Some (False, s')
            \<and> io (trace s') = io (trace s)))"
proof (intro conjI impI)
  define s0 where "s0 = read_clock (emit (EvLog LogWaiting) s)"
  have s0: "clock_reads s0 = Suc (clock_reads s)" "tick s0 = tick s" "running s0 = running s"
    "io (trace s0) = io (trace s)"
    by (simp_all add: s0_def fields io_append) (simp add: io_def)
  have eq: "wait_for_target E cfg timeout fuel s =
      wait_loop E cfg (now E (clock_reads s)) timeout fuel s0"
    by (simp add: wait_for_target_eq s0_def)
  {
    assume "timeout \<le> now E (Suc (clock_reads s) + j) - now E (clock_reads s) \<and> j < fuel"
    then have "timeout \<le> now E (clock_reads s0 + j) - now E (clock_reads s)" "j < fuel"
      by (simp_all add: s0)
    then show "\<exists>r. wait_for_target E cfg timeout fuel s = Some r"
      unfolding eq by (rule wait_loop_terminates)
  }
  {
    assume "wait_for_target E cfg timeout fuel s = Some (b, s')"
    then have run: "wait_loop E cfg (now E (clock_reads s)) timeout fuel s0 = Some (b, s')"
      by (simp add: eq)
    from wait_loop_shape [OF run]
    show "\<exists>rs fin. (\<forall>r\<in>set rs. \<not> available r)
           \<and> io (trace s') =
               io (trace s) @ concat (map (\<lambda>r. [EvGet (target_url cfg) r, EvSleep 1]) rs) @ fin
           \<and> (if b then \<exists>c. c < 500 \<and> fin = [EvGet (target_url cfg) (GetStatus c)] else fin = [])
           \<and> (\<forall>i<length rs + length fin.
                 now E (Suc (clock_reads s) + i) - now E (clock_reads s) < timeout)"
      by (simp add: s0)
    {
      assume b
      with run have "wait_loop E cfg (now E (clock_reads s)) timeout fuel s0 = Some (True, s')"
        by simp
      from wait_loop_true_quiet [OF this]
      show "running s" "\<forall>k. tick s \<le> k \<and> Suc k < tick s' \<longrightarrow> \<not> stop_req E k"
        by (simp_all add: s0)
    }
  }
  {
    assume "\<not> running s \<and> 0 < fuel"
    then obtain n where n: "fuel = Suc n" and nr: "\<not> running s0"
      by (cases fuel) (simp_all add: s0)
    have "wait_loop E cfg (now E (clock_reads s)) timeout (Suc n) s0 = Some (False, read_clock s0)"
      using nr by (rule wait_loop_stopped)
    with eq have "wait_for_target E cfg timeout fuel s = Some (False, read_clock s0)
        \<and> io (trace (read_clock s0)) = io (trace s)"
      unfolding n by (simp add: fields s0)
    then show "\<exists>s'. wait_for_target E cfg timeout fuel s = Some (False, s')
            \<and> io (trace s') = io (trace s)"
      by blast
  }
qed

theorem wait_for_target_contract_counterexample:
  "stop_req (stop_at 0 calm) (tick (begin_run demo_config init))
   \<and> map_option fst (wait_for_target (stop_at 0 calm) demo_config 60 1 (begin_run demo_config init))
       = Some True
   \<and> map_option (running \<circ> snd)
       (wait_for_target (stop_at 0 calm) demo_config 60 1 (begin_run demo_config init))
       = Some False"
  by (simp add: run_defs stop_at_def Let_def wait_loop.simps(2))

theorem wait_for_target_contract_witness:
  "60 \<le> now env_down (Suc (clock_reads (begin_run demo_config init)) + 2)
          - now env_down (clock_reads (begin_run demo_config init))
   \<and> (\<exists>s'. wait_for_target env_down demo_config 60 3 (begin_run demo_config init) = Some (False, s')
         \<and> io (trace s') =
             [EvGet ''http://localhost:5173'' (GetError (Exn ''connection refused'')), EvSleep 1,
              EvGet ''http://localhost:5173'' (GetError (Exn ''connection refused'')), EvSleep 1])
   \<and> (\<exists>s'. wait_for_target env_warming_up demo_config 60 3 (begin_run demo_config init)
           = Some (True, s')
         \<and> io (trace s') =
             [EvGet ''http://localhost:5173'' (GetError (Exn ''connection refused'')), EvSleep 1,
              EvGet ''http://localhost:5173'' (GetStatus 502), EvSleep 1,
              EvGet ''http://localhost:5173'' (GetStatus 404)])
   \<and> (\<exists>s'. wait_for_target calm demo_config 60 1 (stop (begin_run demo_config init))
           = Some (False, s') \<and> io (trace s') = [])"
proof -
  have budget: "60 \<le> now env_down (Suc (clock_reads (begin_run demo_config init)) + 2)
          - now env_down (clock_reads (begin_run demo_config init))" "(2::nat) < 3"
    by (simp_all add: run_defs env_down_def)
  have stopped: "\<not> running (stop (begin_run demo_config init))" "(0::nat) < 1"
    "io (trace (stop (begin_run demo_config init))) = []"
    by (simp_all add: run_defs io_def)
  note t1 = wait_for_target_contract [of 60 env_down "begin_run demo_config init" 2 3 demo_config]
  note t2 = wait_for_target_contract [of 60 calm "stop (begin_run demo_config init)" 0 1 demo_config]
  obtain r where r: "wait_for_target env_down demo_config 60 3 (begin_run demo_config init) = Some r"
    using t1 budget by blast
  have down: "\<exists>s'. wait_for_target env_down demo_config 60 3 (begin_run demo_config init) = Some (False, s')
         \<and> io (trace s') =
             [EvGet ''http://localhost:5173'' (GetError (Exn ''connection refused'')), EvSleep 1,
              EvGet ''http://localhost:5173'' (GetError (Exn ''connection refused'')), EvSleep 1]"
    by (simp add: eval_nat_numeral run_defs env_down_def Let_def wait_loop.simps(2) io_def)
  have up: "\<exists>s'. wait_for_target env_warming_up demo_config 60 3 (begin_run demo_config init)
           = Some (True, s')
         \<and> io (trace s') =
             [EvGet ''http://localhost:5173'' (GetError (Exn ''connection refused'')), EvSleep 1,
              EvGet ''http://localhost:5173'' (GetStatus 502), EvSleep 1,
              EvGet ''http://localhost:5173'' (GetStatus 404)]"
    by (simp add: eval_nat_numeral run_defs env_warming_up_def Let_def wait_loop.simps(2) io_def)
  have "\<exists>s'. wait_for_target calm demo_config 60 1 (stop (begin_run demo_config init))
           = Some (False, s') \<and> io (trace s') = []"
    using t2 stopped by simp
  with budget down up show ?thesis by blast
qed

subsection \<open>C7: failures inside a cycle\<close>

text \<open>
  C7, as the code has it. An exception of the screenshot is caught in
  \<open>_capture_and_send\<close>: a log line, and the cycle is over with the counter, the stored
  fingerprint and the POSTs as they were. An exception of the digest leaves
  \<open>_capture_and_send\<close> and is caught by the loop: a log line, and again nothing else has
  changed. An exception of a POST is caught inside \<open>_send_frame\<close>: a log line, a sleep
  of \<open>retry_delay\<close> unless the attempt was the last one, and the next attempt; the cycle
  is not abandoned. Whatever the cycle did, the iteration ends with the sleep of \<open>interval\<close>,
  the running flag is cleared only by a stop during one of its suspensions, a running
  loop goes on with the next iteration, and the loop returns only with the flag cleared.
  \<open>start\<close> ends with the flag still set in four ways only: the probe reported the target
  unavailable, the navigation failed (both an early \<open>return\<close>), or launching the browser
  or opening the page raised, which nothing catches.
\<close>

theorem cycle_failures_do_not_stop_the_loop:
  "(page s = Some pg \<and> shot_resp E (tick s) = ShotError e \<longrightarrow>
      capture_and_send E cfg s =
        (Inr (), emit (EvLog (LogScreenshotFailed e))
                   (suspend E (emit (EvScreenshot (quality cfg) (ShotError e)) s))))
   \<and> (page s = Some pg \<and> shot_resp E (tick s) = ShotBytes bs \<and> md5_hexdigest E bs = Inl e \<longrightarrow>
      fst (capture_and_send E cfg s) = Inl e
      \<and> cycle E cfg s =
          sleep E (interval cfg)
            (emit (EvLog (LogCaptureError e))
               (suspend E (emit (EvScreenshot (quality cfg) (ShotBytes bs)) s))))
   \<and> (post_resp E (tick s) = PostError e \<longrightarrow>
      send_attempts E cfg p (attempt # rest) s =
        send_attempts E cfg p rest
          (if attempt < max_retries cfg - 1
           then sleep E (retry_delay cfg)
                  (emit (EvLog (LogFrameSendError (attempt + 1) e))
                     (suspend E (emit (EvPost (endpoint cfg) (headers cfg) p (PostError e)) s)))
           else emit (EvLog (LogFrameSendError (attempt + 1) e))
                  (suspend E (emit (EvPost (endpoint cfg) (headers cfg) p (PostError e)) s))))
   \<and> follows E s (cycle E cfg s)
   \<and> io (trace (cycle E cfg s)) =
        io (trace (snd (capture_and_send E cfg s))) @ [EvSleep (interval cfg)]
   \<and> (running s \<longrightarrow> capture_loop E cfg (Suc fuel) s = capture_loop E cfg fuel (cycle E cfg s))
   \<and> (capture_loop E cfg fuel s = Some s1 \<longrightarrow> \<not> running s1)
   \<and> (start E cfg fuel s = Some (r, s') \<and> running s' \<longrightarrow>
        (r = Inr () \<and> (\<exists>s2. s' = emit (EvLog LogNeverAvailable) s2))
      \<or> (r = Inr () \<and> (\<exists>x s7. s' = emit (EvLog (LogNavigateFailed x)) s7))
      \<or> (\<exists>x s3. r = Inl x
            \<and> (s' = suspend E (emit (EvLaunch (Some x)) s3)
               \<or> s' = suspend E (emit (EvNewPage (viewport_width cfg) (viewport_height cfg)
                                         (Some x)) s3))))"
proof (intro conjI impI)
  assume "page s = Some pg \<and> shot_resp E (tick s) = ShotError e"
  then show "capture_and_send E cfg s =
        (Inr (), emit (EvLog (LogScreenshotFailed e))
                   (suspend E (emit (EvScreenshot (quality cfg) (ShotError e)) s)))"
    by (intro capture_shot_error) simp_all
next
  assume "page s = Some pg \<and> shot_resp E (tick s) = ShotBytes bs \<and> md5_hexdigest E bs = Inl e"
  then have cs: "capture_and_send E cfg s =
      (Inl e, suspend E (emit (EvScreenshot (quality cfg) (ShotBytes bs)) s))"
    by (intro capture_md5_error) simp_all
  show "fst (capture_and_send E cfg s) = Inl e"
    by (simp add: cs)
  show "cycle E cfg s =
          sleep E (interval cfg)
            (emit (EvLog (LogCaptureError e))
               (suspend E (emit (EvScreenshot (quality cfg) (ShotBytes bs)) s)))"
    by (simp add: cycle_eq cs)
next
  assume "post_resp E (tick s) = PostError e"
  then show "send_attempts E cfg p (attempt # rest) s =
        send_attempts E cfg p rest
          (if attempt < max_retries cfg - 1
           then sleep E (retry_delay cfg)
                  (emit (EvLog (LogFrameSendError (attempt + 1) e))
                     (suspend E (emit (EvPost (endpoint cfg) (headers cfg) p (PostError e)) s)))
           else emit (EvLog (LogFrameSendError (attempt + 1) e))
                  (suspend E (emit (EvPost (endpoint cfg) (headers cfg) p (PostError e)) s)))"
    by (simp add: Let_def)
next
  show "follows E s (cycle E cfg s)"
    by (rule follows_cycle)
  show "io (trace (cycle E cfg s)) =
        io (trace (snd (capture_and_send E cfg s))) @ [EvSleep (interval cfg)]"
    by (rule cycle_io)
next
  assume "running s"
  then show "capture_loop E cfg (Suc fuel) s = capture_loop E cfg fuel (cycle E cfg s)"
    by simp
next
  assume "capture_loop E cfg fuel s = Some s1"
  then show "\<not> running s1" by (rule capture_loop_end)
next
  assume a: "start E cfg fuel s = Some (r, s') \<and> running s'"
  then have st: "start E cfg fuel s = Some (r, s')" and run: "running s'" by simp_all
  from st show "(r = Inr () \<and> (\<exists>s2. s' = emit (EvLog LogNeverAvailable) s2))
      \<or> (r = Inr () \<and> (\<exists>x s7. s' = emit (EvLog (LogNavigateFailed x)) s7))
      \<or> (\<exists>x s3. r = Inl x
            \<and> (s' = suspend E (emit (EvLaunch (Some x)) s3)
               \<or> s' = suspend E (emit (EvNewPage (viewport_width cfg) (viewport_height cfg)
                                         (Some x)) s3)))"
  proof (cases rule: start_cases)
    case (never_available s2)
    then show ?thesis by blast
  next
    case (launch_failed s2 x)
    then show ?thesis by blast
  next
    case (new_page_failed s2 x)
    then show ?thesis by blast
  next
    case (navigation_failed s2 x)
    then show ?thesis by blast
  next
    case (streamed s2 s8)
    from streamed(2) have "\<not> running s8" by (rule capture_loop_end)
    with run streamed(4) close_client_running show ?thesis by blast
  qed
qed

theorem cycle_failures_do_not_stop_the_loop_counterexample:
  "map_option fst (start env_no_browser demo_config 1 init)
     = Some (Inl (Exn ''executable does not exist''))
   \<and> map_option (logs \<circ> trace \<circ> snd) (start env_no_browser demo_config 1 init)
     = Some [LogStarting, LogTargetUrl ''http://localhost:5173'', LogInterval 2, LogWaiting,
             LogTargetAvailable 200]
   \<and> map_option (running \<circ> snd) (start env_no_browser demo_config 1 init) = Some True
   \<and> logs (trace (cycle env_reset_twice demo_config streaming))
     = [LogFrameSendError 1 (Exn ''connection reset'')]
   \<and> map frameNumber (delivered (trace (cycle env_reset_twice demo_config streaming))) = [1]"
  by (simp add: eval_nat_numeral run_defs env_no_browser_def Let_def wait_loop.simps(2)
        upt_conv_Cons)

theorem cycle_failures_do_not_stop_the_loop_witness:
  "page streaming = Some Page
   \<and> shot_resp env_camera_error (tick streaming) = ShotError (Exn ''target closed'')
   \<and> running streaming
   \<and> running (cycle env_camera_error demo_config streaming)
   \<and> logs (trace (cycle env_camera_error demo_config streaming))
        = [LogScreenshotFailed (Exn ''target closed'')]
   \<and> (\<exists>s1. capture_loop env_camera_error demo_config 3 streaming = Some s1
          \<and> \<not> running s1 \<and> sleeps (trace s1) = [2, 2])
   \<and> shot_resp env_no_md5 (tick streaming) = ShotBytes []
   \<and> md5_hexdigest env_no_md5 [] = Inl (Exn ''md5 is disabled'')
   \<and> logs (trace (cycle env_no_md5 demo_config streaming))
        = [LogCaptureError (Exn ''md5 is disabled'')]
   \<and> frame_count (cycle env_no_md5 demo_config streaming) = 0
   \<and> post_resp env_reset_twice (tick streaming) = PostError (Exn ''connection reset'')
   \<and> sleeps (trace (send_attempts env_reset_twice demo_config
                        (make_payload env_reset_twice demo_config ''data'' ''hash'' streaming)
                        [0, 1, 2] streaming)) = [1, 1]
   \<and> (\<exists>s'. start env_nav_fail demo_config 1 init = Some (Inr (), s') \<and> running s'
          \<and> posts (trace s') = [])"
proof -
  have h4: "post_resp env_reset_twice (tick streaming) = PostError (Exn ''connection reset'')"
    by (simp add: streaming_def init_def env_reset_twice_def calm_def)
  note t3 = cycle_failures_do_not_stop_the_loop [where s = streaming and E = env_reset_twice
      and e = "Exn ''connection reset''" and cfg = demo_config and attempt = 0 and rest = "[1, 2]"
      and p = "make_payload env_reset_twice demo_config ''data'' ''hash'' streaming"]
  have c5: "sleeps (trace (send_attempts env_reset_twice demo_config
                        (make_payload env_reset_twice demo_config ''data'' ''hash'' streaming)
                        [0, 1, 2] streaming)) = [1, 1]"
    using t3 h4 by (simp add: run_defs Let_def)
  have h1: "page streaming = Some Page
      \<and> shot_resp env_camera_error (tick streaming) = ShotError (Exn ''target closed'')"
    by (simp add: streaming_def init_def env_camera_error_def stop_at_def calm_def)
  have h2: "page streaming = Some Page \<and> shot_resp env_no_md5 (tick streaming) = ShotBytes []
      \<and> md5_hexdigest env_no_md5 [] = Inl (Exn ''md5 is disabled'')"
    by (simp add: streaming_def init_def env_no_md5_def stop_at_def calm_def)
  have h3: "running streaming"
    by (simp add: streaming_def init_def)
  obtain s1 where loop: "capture_loop env_camera_error demo_config 3 streaming = Some s1"
    and sl: "sleeps (trace s1) = [2, 2]"
    by (simp add: eval_nat_numeral run_defs env_camera_error_def stop_at_def Let_def)
  obtain s' where nav: "start env_nav_fail demo_config 1 init = Some (Inr (), s')"
    and nav': "running s'" "posts (trace s') = []"
    by (simp add: eval_nat_numeral run_defs env_nav_fail_def Let_def wait_loop.simps(2))
  note t1 = cycle_failures_do_not_stop_the_loop [where s = streaming and pg = Page
      and E = env_camera_error and e = "Exn ''target closed''" and cfg = demo_config
      and fuel = 3 and ?s1.0 = s1]
  note t2 = cycle_failures_do_not_stop_the_loop [where s = streaming and pg = Page
      and E = env_no_md5 and e = "Exn ''md5 is disabled''" and cfg = demo_config and bs = "[]"]
  have c1: "running (cycle env_camera_error demo_config streaming)"
    using t1 h3 by (simp add: follows_def env_camera_error_def stop_at_def calm_def
        cycle_eq capture_shot_error [OF conjunct1 [OF h1] conjunct2 [OF h1]] fields
        streaming_def init_def)
  have c2: "logs (trace (cycle env_camera_error demo_config streaming))
        = [LogScreenshotFailed (Exn ''target closed'')]"
    using t1 h1 by (simp add: cycle_eq) (simp add: run_defs env_camera_error_def stop_at_def)
  have c3: "\<not> running s1"
    using t1 loop by simp
  have c4: "logs (trace (cycle env_no_md5 demo_config streaming))
        = [LogCaptureError (Exn ''md5 is disabled'')]
      \<and> frame_count (cycle env_no_md5 demo_config streaming) = 0"
    using t2 h2 by (simp add: run_defs env_no_md5_def stop_at_def)
  from h1 h2 h3 h4 c1 c2 c3 c4 c5 loop sl nav nav' show ?thesis
    by simp
qed

subsection \<open>C8: the exit status after a probe timeout\<close>

text \<open>
  C8, as the code has it. When \<open>_wait_for_target\<close> returns \<open>False\<close>, \<open>start\<close> prints a line
  and returns; \<open>main\<close> returns with it, no frame has been posted, and the process ends
  with exit status 0: nothing in the source sets another one.
\<close>

theorem probe_timeout_exit_status:
  assumes "wait_for_target E (config_of_args a) 60 fuel (begin_run (config_of_args a) init)
             = Some (False, s2)"
  shows "main E a fuel = Some (Inr (), emit (EvLog LogNeverAvailable) s2)
       \<and> map_option exit_code (main E a fuel) = Some 0
       \<and> posts (trace (emit (EvLog LogNeverAvailable) s2)) = []"
proof -
  have m: "main E a fuel = Some (Inr (), emit (EvLog LogNeverAvailable) s2)"
    unfolding main_def using assms by (rule start_never_available)
  have "posts (trace s2) = posts (trace (begin_run (config_of_args a) init))"
    using wait_for_target_keeps [OF assms] by simp
  then have "posts (trace (emit (EvLog LogNeverAvailable) s2)) = []"
    by (simp add: fields posts_append begin_run_fields init_def)
  with m show ?thesis by (simp add: exit_code_def)
qed

theorem probe_timeout_exit_status_counterexample:
  "map_option fst (wait_for_target env_down demo_config 60 3 (begin_run demo_config init))
     = Some False
   \<and> map_option exit_code (main env_down demo_args 3) = Some 0"
  by (simp add: eval_nat_numeral run_defs env_down_def Let_def wait_loop.simps(2))

theorem probe_timeout_exit_status_witness:
  "(\<exists>s2. wait_for_target env_down (config_of_args demo_args) 60 3
            (begin_run (config_of_args demo_args) init) = Some (False, s2)
      \<and> main env_down demo_args 3 = Some (Inr (), emit (EvLog LogNeverAvailable) s2))
   \<and> map_option exit_code (main env_down demo_args 3) = Some 0"
proof -
  obtain s2 where h: "wait_for_target env_down (config_of_args demo_args) 60 3
            (begin_run (config_of_args demo_args) init) = Some (False, s2)"
    by (simp add: eval_nat_numeral run_defs env_down_def Let_def wait_loop.simps(2))
  from probe_timeout_exit_status [OF h] h show ?thesis by blast
qed

subsection \<open>C9: closing the HTTP client\<close>

text \<open>
  C9. \<open>start\<close> closes the HTTP client in its last statement only, and both early
  \<open>return\<close>s leave before it: after a probe timeout and after a navigation failure the
  client that \<open>start\<close> created is still open when \<open>start\<close> has returned. When the capture
  loop ends, it is closed.
\<close>

theorem early_return_leaves_client_open:
  "map_option (http_client \<circ> snd) (start env_down demo_config 3 init) = Some (Some ClientOpen)
   \<and> map_option (http_client \<circ> snd) (start env_nav_fail demo_config 1 init)
       = Some (Some ClientOpen)
   \<and> map_option (http_client \<circ> snd) (start (stop_at 12 calm) demo_config 4 init)
       = Some (Some ClientClosed)"
  by (simp add: eval_nat_numeral run_defs env_down_def env_nav_fail_def stop_at_def Let_def
        wait_loop.simps(2) upt_conv_Cons)

subsection \<open>C10: no retries configured\<close>

text \<open>
  C10. With \<open>max_retries = 0\<close> the \<open>for\<close> loop of \<open>_send_frame\<close> has no iteration: the
  call leaves the trace as it is (no POST, no log line). A cycle that captures a new
  frame still consumes the sequence number and stores the fingerprint, and posts
  nothing; and no POST is made in the rest of the run either.
\<close>

theorem zero_retries_drops_every_frame:
  assumes "max_retries cfg = 0"
  shows "trace (send_frame E cfg fd fh s) = trace s
       \<and> (page s = Some pg \<and> shot_resp E (tick s) = ShotBytes bs \<and> md5_hexdigest E bs = Inr d
            \<and> last_frame_hash s \<noteq> Some (take 16 d) \<longrightarrow>
            frame_count (cycle E cfg s) = frame_count s + 1
          \<and> last_frame_hash (cycle E cfg s) = Some (take 16 d)
          \<and> posts (trace (cycle E cfg s)) = posts (trace s))
       \<and> (capture_loop E cfg fuel s = Some s' \<longrightarrow> posts (trace s') = posts (trace s))"
proof (intro conjI impI)
  have le: "max_retries cfg \<le> 0" using assms by simp
  show "trace (send_frame E cfg fd fh s) = trace s"
    using le by (rule send_frame_no_retries)
  show "posts (trace s') = posts (trace s)" if "capture_loop E cfg fuel s = Some s'"
    using le that by (rule capture_loop_no_retries)
  assume new: "page s = Some pg \<and> shot_resp E (tick s) = ShotBytes bs \<and> md5_hexdigest E bs = Inr d
            \<and> last_frame_hash s \<noteq> Some (take 16 d)"
  define s2 where "s2 = (suspend E (emit (EvScreenshot (quality cfg) (ShotBytes bs)) s))
                   \<lparr>last_frame_hash := Some (take 16 d), frame_count := frame_count s + 1\<rparr>"
  have cs: "capture_and_send E cfg s = (Inr (), send_frame E cfg (b64encode E bs) (take 16 d) s2)"
    unfolding s2_def using new by (intro capture_new) simp_all
  show "frame_count (cycle E cfg s) = frame_count s + 1"
    by (simp add: cycle_fields cs send_frame_frame s2_def)
  show "last_frame_hash (cycle E cfg s) = Some (take 16 d)"
    by (simp add: cycle_fields cs send_frame_frame s2_def)
  show "posts (trace (cycle E cfg s)) = posts (trace s)"
    by (simp add: cycle_posts cs send_frame_no_retries [OF le] s2_def fields posts_append)
qed

theorem zero_retries_drops_every_frame_witness:
  "max_retries no_retry_config = 0
   \<and> page streaming = Some Page
   \<and> shot_resp (stop_at 3 calm) (tick streaming) = ShotBytes []
   \<and> md5_hexdigest (stop_at 3 calm) [] = Inr []
   \<and> last_frame_hash streaming \<noteq> Some (take 16 [])
   \<and> (\<forall>k. post_resp (stop_at 3 calm) k = PostStatus 200)
   \<and> frame_count (cycle (stop_at 3 calm) no_retry_config streaming) = 1
   \<and> last_frame_hash (cycle (stop_at 3 calm) no_retry_config streaming) = Some []
   \<and> (\<exists>s'. capture_loop (stop_at 3 calm) no_retry_config 3 streaming = Some s'
          \<and> frame_count s' = 2 \<and> posts (trace s') = [])"
proof -
  have h1: "max_retries no_retry_config = 0"
    by (simp add: no_retry_config_def)
  have h2: "page streaming = Some Page \<and> shot_resp (stop_at 3 calm) (tick streaming) = ShotBytes []
      \<and> md5_hexdigest (stop_at 3 calm) [] = Inr [] \<and> last_frame_hash streaming \<noteq> Some (take 16 [])"
    by (simp add: streaming_def init_def stop_at_def calm_def toy_digest_def)
  have h3: "\<forall>k. post_resp (stop_at 3 calm) k = PostStatus 200"
    by (simp add: stop_at_def calm_def)
  obtain s' where run: "capture_loop (stop_at 3 calm) no_retry_config 3 streaming = Some s'"
    and fc: "frame_count s' = 2"
    by (simp add: eval_nat_numeral run_defs stop_at_def no_retry_config_def Let_def)
  have start: "frame_count streaming = 0" "posts (trace streaming) = []"
    by (simp_all add: streaming_def init_def)
  note t = zero_retries_drops_every_frame [OF h1, of "stop_at 3 calm" "''data''" "''hash''" streaming
      Page "[]" "[]" 3 s']
  from t h2 run fc show ?thesis
    by (simp add: h1 h3 start)
qed

end
